theory Spec2Isabelle
  imports Complex_Main "HOL-Library.AList"
begin

section \<open>Data model\<close>

text \<open>
  A cell is one Python object held in a pandas column: a missing value (NaN / None),
  a number (int64 and float64 values, idealised as reals), a text or a boolean.
  A data frame is the ordered list of its named columns. The frames that the loader
  (\<^verbatim>\<open>pd.read_csv\<close> in \<^verbatim>\<open>dqa/io.py\<close>) and the unit tests build are NumPy-backed with a
  default \<^verbatim>\<open>RangeIndex\<close>: row labels are the positions \<open>0, 1, 2, ...\<close>.
\<close>

datatype cell = Null | Num real | Str string | Bool bool

type_synonym series = "cell list"

type_synonym dataframe = "(string \<times> series) list"

definition df_columns :: "dataframe \<Rightarrow> string list" where
  "df_columns df = map fst df"

text \<open>\<^verbatim>\<open>len(df)\<close>: the number of rows.\<close>

definition df_len :: "dataframe \<Rightarrow> nat" where
  "df_len df = (case df of [] \<Rightarrow> 0 | (c, xs) # rest \<Rightarrow> length xs)"

text \<open>
  \<^verbatim>\<open>df[col]\<close> for a column label. Every loop of the checks takes \<^verbatim>\<open>col\<close> from
  \<^verbatim>\<open>df.columns\<close>, or tests membership first, so the lookup never misses there.
\<close>

definition df_col :: "dataframe \<Rightarrow> string \<Rightarrow> series" where
  "df_col df col = (case map_of df col of Some xs \<Rightarrow> xs | None \<Rightarrow> [])"

text \<open>Well-formed frames: column labels are distinct and the row count is uniform.\<close>

definition wf_df :: "dataframe \<Rightarrow> bool" where
  "wf_df df \<longleftrightarrow> distinct (map fst df) \<and> list_all (\<lambda>p. length (snd p) = df_len df) df"

text \<open>\<^verbatim>\<open>pd.isna\<close> on one cell, and \<^verbatim>\<open>int(mask.sum())\<close> on a boolean mask.\<close>

fun isna :: "cell \<Rightarrow> bool" where
  "isna Null = True"
| "isna c = False"

definition mask_sum :: "bool list \<Rightarrow> nat" where
  "mask_sum m = length (filter id m)"

text \<open>\<^verbatim>\<open>series[mask]\<close> and \<^verbatim>\<open>df.index[mask]\<close>: the values, and the row labels, where the mask holds.\<close>

definition select :: "'a list \<Rightarrow> bool list \<Rightarrow> 'a list" where
  "select xs m = map fst (filter snd (zip xs m))"

definition index_where :: "bool list \<Rightarrow> nat list" where
  "index_where m = select [0 ..< length m] m"

text \<open>
  An issue record. \<^verbatim>\<open>rows_to_examples\<close> (\<^verbatim>\<open>dqa/io.py\<close>) keeps the \<^verbatim>\<open>str()\<close> of the first
  three values it is given; the model keeps the values themselves, tagged by what they
  are: a cell, a row label or an exception message.
\<close>

datatype example = Of_cell cell | Of_row nat | Of_text string

record issue =
  itype :: string
  icolumns :: "string list"
  icount :: int
  iexamples :: "example list"

definition rows_to_examples :: "example list \<Rightarrow> example list" where
  "rows_to_examples vals = take 3 vals"

text \<open>\<^verbatim>\<open>count / total if total else 0.0\<close>, the guarded rate every check uses.\<close>

definition rate :: "nat \<Rightarrow> nat \<Rightarrow> real" where
  "rate cnt tot = (if tot \<noteq> 0 then real cnt / real tot else 0)"

text \<open>
  Python exceptions that the modelled code can raise: \<^verbatim>\<open>RulesError\<close> with its message,
  \<^verbatim>\<open>ZeroDivisionError\<close>, \<^verbatim>\<open>re.error\<close> (\<open>PatternError\<close>), \<^verbatim>\<open>TypeError\<close> and \<^verbatim>\<open>ValueError\<close>.
\<close>

datatype py_error = RulesError string | ZeroDivisionError | PatternError | TypeError | ValueError

section \<open>Completeness (\<^verbatim>\<open>dqa/checks/completeness.py\<close>)\<close>

record col_missing =
  missing_count :: nat
  missing_pct :: real

record completeness_metrics =
  cm_global :: col_missing
  cm_columns :: "(string \<times> col_missing) list"

text \<open>The body of \<^verbatim>\<open>for col in df.columns\<close>, threading the metrics dict and the issue list.\<close>

definition completeness_step ::
  "dataframe \<Rightarrow> string \<Rightarrow> (string \<times> col_missing) list \<times> issue list
     \<Rightarrow> (string \<times> col_missing) list \<times> issue list" where
  "completeness_step df col st =
     (let missing_mask = map isna (df_col df col);
          missing_count = mask_sum missing_mask;
          missing_col_pct = rate missing_count (df_len df);
          columns_metrics = AList.update col
            \<lparr>missing_count = missing_count, missing_pct = missing_col_pct\<rparr> (fst st);
          issues = (if missing_count \<noteq> 0
            then snd st @ [\<lparr>itype = ''missing_values'', icolumns = [col],
                            icount = int missing_count,
                            iexamples = rows_to_examples
                              (map Of_cell (select (df_col df col) missing_mask))\<rparr>]
            else snd st)
      in (columns_metrics, issues))"

definition compute_completeness :: "dataframe \<Rightarrow> completeness_metrics \<times> issue list" where
  "compute_completeness df =
     (let total_cells = df_len df * length (df_columns df);
          missing_total = sum_list (map (\<lambda>p. mask_sum (map isna (snd p))) df);
          missing_pct = rate missing_total total_cells;
          st = fold (completeness_step df) (df_columns df) ([], [])
      in (\<lparr>cm_global = \<lparr>missing_count = missing_total, missing_pct = missing_pct\<rparr>,
           cm_columns = fst st\<rparr>, snd st))"

section \<open>Uniqueness (\<^verbatim>\<open>dqa/checks/uniqueness.py\<close>)\<close>

text \<open>
  \<^verbatim>\<open>DataFrame.duplicated\<close> with its default \<^verbatim>\<open>keep='first'\<close>: pandas walks the rows in
  order with a table of the rows seen so far and flags a row when it is already in the
  table; missing values compare equal to each other there. \<open>df_rows\<close> reads the frame
  row by row, \<open>df_subset\<close> keeps the columns named by \<^verbatim>\<open>subset\<close>.
\<close>

fun duplicated_from :: "'a list \<Rightarrow> 'a list \<Rightarrow> bool list" where
  "duplicated_from seen [] = []"
| "duplicated_from seen (r # rs) =
     (if r \<in> set seen then True # duplicated_from seen rs
      else False # duplicated_from (r # seen) rs)"

definition duplicated :: "'a list \<Rightarrow> bool list" where
  "duplicated rows = duplicated_from [] rows"

definition df_rows :: "dataframe \<Rightarrow> cell list list" where
  "df_rows df = map (\<lambda>i. map (\<lambda>p. snd p ! i) df) [0 ..< df_len df]"

definition df_subset :: "dataframe \<Rightarrow> string list \<Rightarrow> dataframe" where
  "df_subset df key_cols = filter (\<lambda>p. fst p \<in> set key_cols) df"

record key_metric =
  km_count :: nat
  km_pct :: real
  km_columns :: "string list"

record uniqueness_metrics =
  duplicate_rows_count :: nat
  duplicate_rows_pct :: real
  duplicates_on_key :: "(string \<times> key_metric) list"

definition missing_columns :: "dataframe \<Rightarrow> string list \<Rightarrow> string list" where
  "missing_columns df cols = filter (\<lambda>col. col \<notin> set (df_columns df)) cols"

text \<open>The closure \<^verbatim>\<open>handle_key\<close>; the state is the \<^verbatim>\<open>duplicates_on_key\<close> dict and the issue list.\<close>

definition handle_key ::
  "dataframe \<Rightarrow> string list \<Rightarrow> string \<Rightarrow> (string \<times> key_metric) list \<times> issue list
     \<Rightarrow> (string \<times> key_metric) list \<times> issue list" where
  "handle_key df key_cols label st =
     (let missing = missing_columns df key_cols
      in if missing \<noteq> []
         then (fst st, snd st @ [\<lparr>itype = ''missing_columns'', icolumns = missing,
                                   icount = int (length missing), iexamples = []\<rparr>])
         else
           (let dup_mask = duplicated (df_rows (df_subset df key_cols));
                duplicates = mask_sum dup_mask;
                pct = rate duplicates (df_len df);
                on_key = AList.update label
                  \<lparr>km_count = duplicates, km_pct = pct, km_columns = key_cols\<rparr> (fst st)
            in (on_key,
                if duplicates \<noteq> 0
                then snd st @ [\<lparr>itype = ''duplicate_key'', icolumns = key_cols,
                                icount = int duplicates,
                                iexamples = rows_to_examples (map Of_row (index_where dup_mask))\<rparr>]
                else snd st)))"

text \<open>\<^verbatim>\<open>str(idx)\<close> for the label \<^verbatim>\<open>f"unique_key_{idx}"\<close>.\<close>

fun str_nat :: "nat \<Rightarrow> string" where
  "str_nat n = (if n < 10 then [char_of (48 + n)]
                else str_nat (n div 10) @ [char_of (48 + n mod 10)])"

declare str_nat.simps [simp del]

text \<open>\<^verbatim>\<open>for idx, cols in enumerate(unique_keys, start=1)\<close>.\<close>

fun handle_unique_keys ::
  "dataframe \<Rightarrow> nat \<Rightarrow> string list list \<Rightarrow> (string \<times> key_metric) list \<times> issue list
     \<Rightarrow> (string \<times> key_metric) list \<times> issue list" where
  "handle_unique_keys df idx [] st = st"
| "handle_unique_keys df idx (cols # rest) st =
     handle_unique_keys df (Suc idx) rest (handle_key df cols (''unique_key_'' @ str_nat idx) st)"

definition compute_uniqueness ::
  "dataframe \<Rightarrow> string list option \<Rightarrow> string list list option
     \<Rightarrow> uniqueness_metrics \<times> issue list" where
  "compute_uniqueness df id_cols unique_keys =
     (let dup_mask = duplicated (df_rows df);
          duplicate_rows = mask_sum dup_mask;
          duplicate_rows_pct = rate duplicate_rows (df_len df);
          issues0 = (if duplicate_rows \<noteq> 0
            then [\<lparr>itype = ''duplicate_rows'', icolumns = [], icount = int duplicate_rows,
                   iexamples = rows_to_examples (map Of_row (index_where dup_mask))\<rparr>]
            else []);
          st1 = (case id_cols of
                   None \<Rightarrow> ([], issues0)
                 | Some cols \<Rightarrow> if cols \<noteq> [] then handle_key df cols ''id_cols'' ([], issues0)
                                else ([], issues0));
          st2 = (case unique_keys of
                   None \<Rightarrow> st1
                 | Some keys \<Rightarrow> handle_unique_keys df 1 keys st1)
      in (\<lparr>duplicate_rows_count = duplicate_rows, duplicate_rows_pct = duplicate_rows_pct,
           duplicates_on_key = fst st2\<rparr>, snd st2))"

text \<open>
  \<^verbatim>\<open>df.duplicated(subset=[])\<close> raises \<^verbatim>\<open>ValueError\<close> on a frame that has rows (on an empty
  frame it returns at once). \<^verbatim>\<open>handle_key\<close> reaches it for a unique-key group that names no
  column, since nothing is missing from such a group; \<^verbatim>\<open>if id_cols:\<close> keeps an empty
  \<^verbatim>\<open>id_cols\<close> away from it. \<open>compute_uniqueness\<close> above is the result of the check in every
  other case; \<open>compute_uniqueness_raising\<close> is the check with this exception.
\<close>

definition empty_key_group :: "dataframe \<Rightarrow> string list list option \<Rightarrow> bool" where
  "empty_key_group df unique_keys \<longleftrightarrow>
     df_len df \<noteq> 0 \<and> (case unique_keys of None \<Rightarrow> False | Some keys \<Rightarrow> [] \<in> set keys)"

definition compute_uniqueness_raising ::
  "dataframe \<Rightarrow> string list option \<Rightarrow> string list list option
     \<Rightarrow> py_error + uniqueness_metrics \<times> issue list" where
  "compute_uniqueness_raising df id_cols unique_keys =
     (if empty_key_group df unique_keys then Inl ValueError
      else Inr (compute_uniqueness df id_cols unique_keys))"

section \<open>Scoring (\<^verbatim>\<open>dqa/scoring.py\<close>)\<close>

text \<open>Rates and scores are Python floats, taken here as real numbers.\<close>

record score_weights =
  w_completeness :: int
  w_validity :: int
  w_uniqueness :: int
  w_consistency :: int
  w_outliers :: int

definition default_weights :: score_weights where
  "default_weights = \<lparr>w_completeness = 25, w_validity = 25, w_uniqueness = 20,
                        w_consistency = 20, w_outliers = 10\<rparr>"

record scores =
  s_completeness :: real
  s_validity :: real
  s_uniqueness :: real
  s_consistency :: real
  s_outliers :: real
  s_total :: real

definition bounded :: "real \<Rightarrow> real" where
  "bounded score = max 0 (min 100 score)"

text \<open>
  The arguments are \<^verbatim>\<open>missing_pct\<close>, \<^verbatim>\<open>invalid_pct\<close>, \<^verbatim>\<open>duplicate_rows_pct\<close>, \<^verbatim>\<open>duplicate_key_pct\<close>,
  \<^verbatim>\<open>consistency_invalid_pct\<close>, \<^verbatim>\<open>outlier_pct\<close> and \<^verbatim>\<open>weights\<close>, in this order.
  \<^verbatim>\<open>duplicate_key_pct or 0.0\<close> is \<open>0\<close> for \<^verbatim>\<open>None\<close> (and for \<open>0.0\<close>);
  \<^verbatim>\<open>weights or ScoreWeights()\<close> takes the defaults for \<^verbatim>\<open>None\<close>. The final division raises
  \<^verbatim>\<open>ZeroDivisionError\<close> when the weights sum to zero.
\<close>

definition compute_scores ::
  "real \<Rightarrow> real \<Rightarrow> real \<Rightarrow> real option \<Rightarrow> real \<Rightarrow> real \<Rightarrow> score_weights option
     \<Rightarrow> py_error + scores" where
  "compute_scores miss_pct inv_pct dup_rows_pct dup_key_pct
       cons_pct outl_pct weights_opt =
     (let weights = (case weights_opt of None \<Rightarrow> default_weights | Some w \<Rightarrow> w);
          completeness_score = bounded (100 * (1 - miss_pct));
          validity_score = bounded (100 * (1 - inv_pct));
          uniqueness_rate = max dup_rows_pct
            (case dup_key_pct of None \<Rightarrow> 0 | Some k \<Rightarrow> k);
          uniqueness_score = bounded (100 * (1 - uniqueness_rate));
          consistency_score = bounded (100 * (1 - cons_pct));
          outliers_score = bounded (100 * (1 - outl_pct));
          total_weight = w_completeness weights + w_validity weights + w_uniqueness weights
            + w_consistency weights + w_outliers weights
      in if total_weight = 0 then Inl ZeroDivisionError
         else
           (let weighted_total =
                  (completeness_score * real_of_int (w_completeness weights)
                   + validity_score * real_of_int (w_validity weights)
                   + uniqueness_score * real_of_int (w_uniqueness weights)
                   + consistency_score * real_of_int (w_consistency weights)
                   + outliers_score * real_of_int (w_outliers weights))
                  / real_of_int total_weight
            in Inr \<lparr>s_completeness = completeness_score, s_validity = validity_score,
                     s_uniqueness = uniqueness_score, s_consistency = consistency_score,
                     s_outliers = outliers_score, s_total = bounded weighted_total\<rparr>))"

text \<open>
  \<^verbatim>\<open>run_profile\<close> (\<^verbatim>\<open>dqa/profiler.py\<close>) passes as \<^verbatim>\<open>duplicate_key_pct\<close> the largest \<^verbatim>\<open>pct\<close> among
  the entries of \<^verbatim>\<open>duplicates_on_key\<close>, or \<^verbatim>\<open>None\<close> when that dict is empty.
\<close>

definition profile_duplicate_key_pct :: "(string \<times> key_metric) list \<Rightarrow> real option" where
  "profile_duplicate_key_pct on_key =
     (case on_key of [] \<Rightarrow> None
      | e # rest \<Rightarrow> Some (fold max (map (\<lambda>p. km_pct (snd p)) rest) (km_pct (snd e))))"

section \<open>Column dtypes\<close>

text \<open>
  The dtype that pandas gives a column built from these cells: \<^verbatim>\<open>bool\<close> when every cell is
  a boolean, a numeric dtype (\<^verbatim>\<open>int64\<close> / \<^verbatim>\<open>float64\<close>, missing values being NaN) when every
  cell is a number or missing, \<^verbatim>\<open>object\<close> otherwise. \<^verbatim>\<open>is_numeric_dtype\<close> holds of the boolean
  dtype too, which is why the source tests for it separately.
\<close>

datatype dtype = DBool | DNumeric | DObject

fun is_bool_cell :: "cell \<Rightarrow> bool" where
  "is_bool_cell (Bool b) = True"
| "is_bool_cell c = False"

fun is_num_or_null :: "cell \<Rightarrow> bool" where
  "is_num_or_null (Num r) = True"
| "is_num_or_null Null = True"
| "is_num_or_null c = False"

definition dtype_of :: "series \<Rightarrow> dtype" where
  "dtype_of xs = (if xs \<noteq> [] \<and> list_all is_bool_cell xs then DBool
                  else if xs \<noteq> [] \<and> list_all is_num_or_null xs then DNumeric
                  else DObject)"

definition is_numeric_dtype :: "dtype \<Rightarrow> bool" where
  "is_numeric_dtype d \<longleftrightarrow> d = DNumeric \<or> d = DBool"

section \<open>Row-rule expressions (\<^verbatim>\<open>dqa/rules.py\<close>)\<close>

subsection \<open>Tokenizer\<close>

text \<open>
  A token is the pair of its kind and its text. Characters are code points below 256;
  \<open>isspace\<close> is \<^verbatim>\<open>str.isspace\<close> on them and \<open>is_digit\<close> is the class \<^verbatim>\<open>\d\<close>.
\<close>

type_synonym token = "string \<times> string"

definition isspace :: "char \<Rightarrow> bool" where
  "isspace c \<longleftrightarrow> of_char c \<in> {9, 10, 11, 12, 13, 28, 29, 30, 31, 32, 133, 160 :: nat}"

definition is_digit :: "char \<Rightarrow> bool" where
  "is_digit c \<longleftrightarrow> 48 \<le> (of_char c :: nat) \<and> (of_char c :: nat) \<le> 57"

definition is_ident_start :: "char \<Rightarrow> bool" where
  "is_ident_start c \<longleftrightarrow>
     (65 \<le> (of_char c :: nat) \<and> (of_char c :: nat) \<le> 90)
   \<or> (97 \<le> (of_char c :: nat) \<and> (of_char c :: nat) \<le> 122) \<or> c = CHR ''_''"

definition is_ident_char :: "char \<Rightarrow> bool" where
  "is_ident_char c \<longleftrightarrow> is_ident_start c \<or> is_digit c"

text \<open>
  The alternatives of \<^verbatim>\<open>_TOKEN_REGEX\<close>, each matched at the head of the rest of the
  expression: \<^verbatim>\<open>\d+(?:\.\d+)?\<close>, a quoted text without its own quote character inside,
  the operators (two-character ones first), the three punctuation characters, and
  \<^verbatim>\<open>[A-Za-z_][A-Za-z0-9_]*\<close>.
\<close>

definition number_match :: "string \<Rightarrow> string option" where
  "number_match cs =
     (let ds = takeWhile is_digit cs; rest = dropWhile is_digit cs
      in if ds = [] then None
         else (case rest of
                 c # r \<Rightarrow> if c = CHR ''.'' \<and> takeWhile is_digit r \<noteq> []
                          then Some (ds @ [c] @ takeWhile is_digit r) else Some ds
               | [] \<Rightarrow> Some ds))"

definition quoted_match :: "char \<Rightarrow> string \<Rightarrow> string option" where
  "quoted_match q cs =
     (case cs of
        c # r \<Rightarrow> if c = q \<and> dropWhile (\<lambda>x. x \<noteq> q) r \<noteq> []
                 then Some (q # takeWhile (\<lambda>x. x \<noteq> q) r @ [q]) else None
      | [] \<Rightarrow> None)"

definition string_match :: "string \<Rightarrow> string option" where
  "string_match cs =
     (case quoted_match (CHR 0x27) cs of Some t \<Rightarrow> Some t
      | None \<Rightarrow> quoted_match (CHR 0x22) cs)"

definition op_match :: "string \<Rightarrow> string option" where
  "op_match cs =
     (if take 2 cs = ''<='' then Some ''<=''
      else if take 2 cs = ''>='' then Some ''>=''
      else if take 2 cs = ''=='' then Some ''==''
      else if take 2 cs = ''!='' then Some ''!=''
      else if take 1 cs = ''<'' then Some ''<''
      else if take 1 cs = ''>'' then Some ''>''
      else None)"

definition char_match :: "char \<Rightarrow> string \<Rightarrow> string option" where
  "char_match x cs = (if take 1 cs = [x] then Some [x] else None)"

definition ident_match :: "string \<Rightarrow> string option" where
  "ident_match cs =
     (case cs of
        c # r \<Rightarrow> if is_ident_start c then Some (c # takeWhile is_ident_char r) else None
      | [] \<Rightarrow> None)"

text \<open>
  A successful match records which named group took part and the text it matched.
  The pattern opens with one more parenthesis (\<^verbatim>\<open>r"("\<close>, closed by the final
  \<^verbatim>\<open>r")"\<close>), which has no name and is capturing group 1; the named groups \<^verbatim>\<open>NUMBER\<close>,
  \<^verbatim>\<open>STRING\<close>, \<^verbatim>\<open>OP\<close>, \<^verbatim>\<open>LPAREN\<close>, \<^verbatim>\<open>RPAREN\<close>, \<^verbatim>\<open>COMMA\<close>, \<^verbatim>\<open>IDENT\<close> are groups 2 to 8.
  The alternatives are tried in this order and the first that matches is taken.
\<close>

record re_match =
  m_group :: nat
  m_text :: string

definition first_match :: "(nat \<times> string option) list \<Rightarrow> re_match option" where
  "first_match alts =
     (case filter (\<lambda>p. snd p \<noteq> None) alts of
        [] \<Rightarrow> None
      | p # rest \<Rightarrow> Some \<lparr>m_group = fst p, m_text = the (snd p)\<rparr>)"

definition token_regex_match :: "string \<Rightarrow> re_match option" where
  "token_regex_match cs =
     first_match [(2, number_match cs), (3, string_match cs), (4, op_match cs),
       (5, char_match (CHR ''('') cs), (6, char_match (CHR '')'') cs),
       (7, char_match (CHR '','') cs), (8, ident_match cs)]"

definition group_name :: "nat \<Rightarrow> string option" where
  "group_name g =
     (if g = 2 then Some ''NUMBER'' else if g = 3 then Some ''STRING''
      else if g = 4 then Some ''OP'' else if g = 5 then Some ''LPAREN''
      else if g = 6 then Some ''RPAREN'' else if g = 7 then Some ''COMMA''
      else if g = 8 then Some ''IDENT'' else None)"

text \<open>
  \<^verbatim>\<open>Match.lastindex\<close> is the index of the capturing group that was closed last. The
  enclosing group 1 closes after the alternative inside it, so it is 1 on every match
  of this pattern (the library manual: \<^verbatim>\<open>(a)b\<close>, \<^verbatim>\<open>((a)(b))\<close> and \<^verbatim>\<open>((ab))\<close> have
  \<^verbatim>\<open>lastindex == 1\<close> on \<^verbatim>\<open>'ab'\<close>). \<^verbatim>\<open>Match.lastgroup\<close> is the name of that group, and
  \<^verbatim>\<open>None\<close> when the group has no name.
\<close>

definition lastindex :: "re_match \<Rightarrow> nat" where
  "lastindex m = 1"

definition lastgroup :: "re_match \<Rightarrow> string option" where
  "lastgroup m = group_name (lastindex m)"

definition ascii_lower :: "char \<Rightarrow> char" where
  "ascii_lower c = (if 65 \<le> (of_char c :: nat) \<and> (of_char c :: nat) \<le> 90
                    then char_of (of_char c + 32 :: nat) else c)"

definition ascii_upper :: "char \<Rightarrow> char" where
  "ascii_upper c = (if 97 \<le> (of_char c :: nat) \<and> (of_char c :: nat) \<le> 122
                    then char_of (of_char c - 32 :: nat) else c)"

text \<open>Every alternative takes at least one character, so the scan below moves on.\<close>

lemma first_match_text:
  "first_match alts = Some m \<Longrightarrow> \<exists>g. (g, Some (m_text m)) \<in> set alts"
  unfolding first_match_def
  by (auto split: list.splits dest!: arg_cong [where f = set] simp: filter_eq_Cons_iff)

lemma token_regex_match_nonempty:
  assumes "token_regex_match cs = Some m"
  shows "m_text m \<noteq> []"
proof -
  from first_match_text [OF assms [unfolded token_regex_match_def]]
  consider "number_match cs = Some (m_text m)" | "string_match cs = Some (m_text m)"
    | "op_match cs = Some (m_text m)" | x where "char_match x cs = Some (m_text m)"
    | "ident_match cs = Some (m_text m)"
    by auto
  then show ?thesis
    by cases (auto simp: number_match_def string_match_def quoted_match_def op_match_def
        char_match_def ident_match_def Let_def split: list.splits if_splits option.splits)
qed

text \<open>
  \<^verbatim>\<open>tokenize\<close>: the loop over \<^verbatim>\<open>pos\<close>, here over the rest of the expression from \<^verbatim>\<open>pos\<close> on.
\<close>

function tokenize_from :: "string \<Rightarrow> token list \<Rightarrow> py_error + token list" where
  "tokenize_from [] tokens = Inr tokens"
| "tokenize_from (c # cs) tokens =
     (if isspace c then tokenize_from cs tokens
      else
        (case token_regex_match (c # cs) of
           None \<Rightarrow> Inl (RulesError (''Invalid token near: '' @ take 10 (c # cs)))
         | Some m \<Rightarrow>
             (case lastgroup m of
                None \<Rightarrow> Inl (RulesError ''Invalid token in expression'')
              | Some kind \<Rightarrow>
                  (let v = m_text m;
                       kind' = (if kind = ''IDENT'' \<and> map ascii_lower v \<in> {''and'', ''or''}
                                then map ascii_upper v else kind)
                   in tokenize_from (drop (length v) (c # cs)) (tokens @ [(kind', v)])))))"
  by pat_completeness auto
termination
proof (relation "measure (\<lambda>(cs, tokens). length cs)", goal_cases)
  case 1
  show ?case by simp
next
  case (2 c cs tokens)
  then show ?case by simp
next
  case (3 c cs tokens m kind v kind')
  then have "m_text m \<noteq> []" by (simp add: token_regex_match_nonempty)
  with 3 show ?case by (cases "m_text m") simp_all
qed

definition tokenize :: "string \<Rightarrow> py_error + token list" where
  "tokenize expr = tokenize_from expr []"


subsection \<open>Parser\<close>

text \<open>
  The syntax tree: the tagged tuples \<^verbatim>\<open>("ident", name)\<close>, \<^verbatim>\<open>("number", x)\<close>,
  \<^verbatim>\<open>("string", s)\<close>, \<^verbatim>\<open>("call", f, args)\<close>, \<^verbatim>\<open>("cmp", op, l, r)\<close>, \<^verbatim>\<open>("and", l, r)\<close> and
  \<^verbatim>\<open>("or", l, r)\<close> that the parser builds.
\<close>

datatype ast =
    Ident string
  | Number real
  | String string
  | Call string "ast list"
  | Cmp string ast ast
  | And ast ast
  | Or ast ast

text \<open>\<^verbatim>\<open>float(value)\<close> of a \<^verbatim>\<open>NUMBER\<close> text, and \<^verbatim>\<open>value.strip\<close> of both quote characters.\<close>

definition nat_of_digits :: "string \<Rightarrow> nat" where
  "nat_of_digits ds = foldl (\<lambda>a c. 10 * a + (of_char c - 48)) 0 ds"

definition float_of :: "string \<Rightarrow> real" where
  "float_of v =
     (let ip = takeWhile is_digit v; rest = dropWhile is_digit v
      in case rest of
           [] \<Rightarrow> real (nat_of_digits ip)
         | dot # fs \<Rightarrow> real (nat_of_digits ip) + real (nat_of_digits fs) / 10 ^ length fs)"

definition strip_quotes :: "string \<Rightarrow> string" where
  "strip_quotes v =
     rev (dropWhile (\<lambda>c. c = CHR 0x22 \<or> c = CHR 0x27)
       (rev (dropWhile (\<lambda>c. c = CHR 0x22 \<or> c = CHR 0x27) v)))"

text \<open>\<^verbatim>\<open>Parser._consume(kind)\<close> on the tokens that are left.\<close>

definition consume :: "string \<Rightarrow> token list \<Rightarrow> py_error + token list" where
  "consume kind toks =
     (case toks of
        [] \<Rightarrow> Inl (RulesError ''Unexpected end of expression'')
      | t # rest \<Rightarrow> if fst t \<noteq> kind
                     then Inl (RulesError (''Expected '' @ kind @ '' but got '' @ fst t))
                     else Inr rest)"

text \<open>
  The recursive-descent parser. Each method becomes a function from the tokens that are
  left to an error or a result with the tokens left after it; the \<^verbatim>\<open>while\<close> loops of
  \<^verbatim>\<open>_parse_or\<close>, \<^verbatim>\<open>_parse_and\<close> and of the argument list are \<open>or_loop\<close>, \<open>and_loop\<close> and
  \<open>args_loop\<close>. The first argument bounds the number of tokens still to be consumed and
  goes down with each token a loop or a nested expression consumes; \<open>None\<close> stands for
  a bound that was too small. Started with the number of tokens, the bound is never
  used up (\<open>parser_fuel\<close> below).
\<close>

type_synonym 'a presult = "(py_error + 'a \<times> token list) option"

definition pbind :: "'a presult \<Rightarrow> ('a \<Rightarrow> token list \<Rightarrow> 'b presult) \<Rightarrow> 'b presult" where
  "pbind r f = (case r of None \<Rightarrow> None | Some (Inl e) \<Rightarrow> Some (Inl e)
               | Some (Inr p) \<Rightarrow> f (fst p) (snd p))"

lemma pbind_cong [fundef_cong]:
  "r = r' \<Longrightarrow> (\<And>a rest. r' = Some (Inr (a, rest)) \<Longrightarrow> f a rest = f' a rest) \<Longrightarrow>
   pbind r f = pbind r' f'"
  by (auto simp: pbind_def split: option.splits sum.splits)

definition expect :: "string \<Rightarrow> 'a \<Rightarrow> token list \<Rightarrow> 'a presult" where
  "expect kind a toks =
     (case consume kind toks of Inl e \<Rightarrow> Some (Inl e) | Inr rest \<Rightarrow> Some (Inr (a, rest)))"

function parse_or :: "nat \<Rightarrow> token list \<Rightarrow> ast presult"
  and or_loop :: "nat \<Rightarrow> ast \<Rightarrow> token list \<Rightarrow> ast presult"
  and parse_and :: "nat \<Rightarrow> token list \<Rightarrow> ast presult"
  and and_loop :: "nat \<Rightarrow> ast \<Rightarrow> token list \<Rightarrow> ast presult"
  and parse_comparison :: "nat \<Rightarrow> token list \<Rightarrow> ast presult"
  and parse_term :: "nat \<Rightarrow> token list \<Rightarrow> ast presult"
  and parse_args :: "nat \<Rightarrow> token list \<Rightarrow> (ast list) presult"
  and args_loop :: "nat \<Rightarrow> ast list \<Rightarrow> token list \<Rightarrow> (ast list) presult"
where
  "parse_or n toks = pbind (parse_and n toks) (or_loop n)"
| "or_loop n left toks =
     (if toks \<noteq> [] \<and> fst (hd toks) = ''OR''
      then (case n of
              0 \<Rightarrow> None
            | Suc m \<Rightarrow> pbind (parse_and m (tl toks)) (\<lambda>right. or_loop m (Or left right)))
      else Some (Inr (left, toks)))"
| "parse_and n toks = pbind (parse_comparison n toks) (and_loop n)"
| "and_loop n left toks =
     (if toks \<noteq> [] \<and> fst (hd toks) = ''AND''
      then (case n of
              0 \<Rightarrow> None
            | Suc m \<Rightarrow> pbind (parse_comparison m (tl toks)) (\<lambda>right. and_loop m (And left right)))
      else Some (Inr (left, toks)))"
| "parse_comparison n toks =
     pbind (parse_term n toks) (\<lambda>left rest.
       if rest \<noteq> [] \<and> fst (hd rest) = ''OP''
       then pbind (parse_term n (tl rest)) (\<lambda>right rest'.
              Some (Inr (Cmp (snd (hd rest)) left right, rest')))
       else Some (Inr (left, rest)))"
| "parse_term n toks =
     (if toks = [] then Some (Inl (RulesError ''Unexpected end of expression''))
      else if fst (hd toks) = ''LPAREN''
      then (case n of
              0 \<Rightarrow> None
            | Suc m \<Rightarrow> pbind (parse_or m (tl toks)) (expect ''RPAREN''))
      else if fst (hd toks) = ''IDENT''
      then (if tl toks \<noteq> [] \<and> fst (hd (tl toks)) = ''LPAREN''
            then (case n of
                    0 \<Rightarrow> None
                  | Suc m \<Rightarrow> pbind (parse_args m (tl (tl toks))) (\<lambda>args.
                             expect ''RPAREN'' (Call (snd (hd toks)) args)))
            else Some (Inr (Ident (snd (hd toks)), tl toks)))
      else if fst (hd toks) = ''NUMBER''
      then Some (Inr (Number (float_of (snd (hd toks))), tl toks))
      else if fst (hd toks) = ''STRING''
      then Some (Inr (String (strip_quotes (snd (hd toks))), tl toks))
      else Some (Inl (RulesError (''Unexpected token '' @ fst (hd toks)))))"
| "parse_args n toks =
     (if toks \<noteq> [] \<and> fst (hd toks) \<noteq> ''RPAREN''
      then pbind (parse_or n toks) (\<lambda>a. args_loop n [a])
      else Some (Inr ([], toks)))"
| "args_loop n args toks =
     (if toks \<noteq> [] \<and> fst (hd toks) = ''COMMA''
      then (case n of
              0 \<Rightarrow> None
            | Suc m \<Rightarrow> pbind (parse_or m (tl toks)) (\<lambda>a. args_loop m (args @ [a])))
      else Some (Inr (args, toks)))"
  by pat_completeness auto
termination
  by (relation "measure (\<lambda>x. case x of
        Inl (Inl (Inl (n, toks))) \<Rightarrow> 8 * n + 7
      | Inl (Inl (Inr (n, left, toks))) \<Rightarrow> 8 * n + 6
      | Inl (Inr (Inl (n, toks))) \<Rightarrow> 8 * n + 5
      | Inl (Inr (Inr (n, left, toks))) \<Rightarrow> 8 * n + 4
      | Inr (Inl (Inl (n, toks))) \<Rightarrow> 8 * n + 3
      | Inr (Inl (Inr (n, toks))) \<Rightarrow> 8 * n + 2
      | Inr (Inr (Inl (n, toks))) \<Rightarrow> 8 * n + 8
      | Inr (Inr (Inr (n, args, toks))) \<Rightarrow> 8 * n + 1)") auto


declare parse_or.simps [simp del] or_loop.simps [simp del] parse_and.simps [simp del]
  and_loop.simps [simp del] parse_comparison.simps [simp del] parse_term.simps [simp del]
  parse_args.simps [simp del] args_loop.simps [simp del]

definition ok :: "'a presult \<Rightarrow> nat \<Rightarrow> bool" where
  "ok r k \<longleftrightarrow> r \<noteq> None \<and> (\<forall>a rest. r = Some (Inr (a, rest)) \<longrightarrow> length rest \<le> k)"

lemma ok_pbindI:
  assumes "ok r k" and "\<And>a rest. r = Some (Inr (a, rest)) \<Longrightarrow> length rest \<le> k \<Longrightarrow> ok (f a rest) K"
  shows "ok (pbind r f) K"
  using assms by (auto simp: ok_def pbind_def split: option.splits sum.splits)

lemma ok_mono: "ok r k \<Longrightarrow> k \<le> K \<Longrightarrow> ok r K"
  by (auto simp: ok_def)

lemma ok_result [simp]: "ok (Some (Inr (a, rest))) k \<longleftrightarrow> length rest \<le> k"
  by (simp add: ok_def)

lemma ok_error [simp]: "ok (Some (Inl e)) k"
  by (simp add: ok_def)

lemma ok_expect: "length toks \<le> k \<Longrightarrow> ok (expect kind a toks) k"
  by (auto simp: expect_def consume_def ok_def split: list.splits sum.splits)

lemma parser_fuel:
  "length toks \<le> n \<Longrightarrow> ok (parse_or n toks) (length toks)"
  "length toks \<le> n \<Longrightarrow> ok (or_loop n left toks) (length toks)"
  "length toks \<le> n \<Longrightarrow> ok (parse_and n toks) (length toks)"
  "length toks \<le> n \<Longrightarrow> ok (and_loop n left toks) (length toks)"
  "length toks \<le> n \<Longrightarrow> ok (parse_comparison n toks) (length toks)"
  "length toks \<le> n \<Longrightarrow> ok (parse_term n toks) (length toks)"
  "length toks \<le> n \<Longrightarrow> ok (parse_args n toks) (length toks)"
  "length toks \<le> n \<Longrightarrow> ok (args_loop n args toks) (length toks)"
proof (induction n toks and n left toks and n toks and n left toks and n toks and n toks
    and n toks and n args toks
    rule: parse_or_or_loop_parse_and_and_loop_parse_comparison_parse_term_parse_args_args_loop.induct)
  case (1 n toks)
  show ?case
    unfolding parse_or.simps [of n toks]
    by (rule ok_pbindI [OF "1.IH"(1) [OF "1.prems"]]) (use "1.IH"(2) "1.prems" in \<open>auto intro: ok_mono\<close>)
next
  case (2 n left toks)
  show ?case
  proof (cases "toks \<noteq> [] \<and> fst (hd toks) = ''OR''")
    case False
    then show ?thesis unfolding or_loop.simps [of n left toks] by auto
  next
    case True
    then obtain m where n: "n = Suc m" and m: "length (tl toks) \<le> m"
      using "2.prems" by (cases n; cases toks) auto
    have "ok (pbind (parse_and m (tl toks)) (\<lambda>right. or_loop m (Or left right))) (length (tl toks))"
      by (rule ok_pbindI [OF "2.IH"(1) [OF True n m]])
         (use "2.IH"(2) [OF True n] m in \<open>auto intro: ok_mono\<close>)
    then show ?thesis
      unfolding or_loop.simps [of n left toks] using True n by (auto intro: ok_mono)
  qed
next
  case (3 n toks)
  show ?case
    unfolding parse_and.simps [of n toks]
    by (rule ok_pbindI [OF "3.IH"(1) [OF "3.prems"]]) (use "3.IH"(2) "3.prems" in \<open>auto intro: ok_mono\<close>)
next
  case (4 n left toks)
  show ?case
  proof (cases "toks \<noteq> [] \<and> fst (hd toks) = ''AND''")
    case False
    then show ?thesis unfolding and_loop.simps [of n left toks] by auto
  next
    case True
    then obtain m where n: "n = Suc m" and m: "length (tl toks) \<le> m"
      using "4.prems" by (cases n; cases toks) auto
    have "ok (pbind (parse_comparison m (tl toks)) (\<lambda>right. and_loop m (And left right))) (length (tl toks))"
      by (rule ok_pbindI [OF "4.IH"(1) [OF True n m]])
         (use "4.IH"(2) [OF True n] m in \<open>auto intro: ok_mono\<close>)
    then show ?thesis
      unfolding and_loop.simps [of n left toks] using True n by (auto intro: ok_mono)
  qed
next
  case (5 n toks)
  show ?case
    unfolding parse_comparison.simps [of n toks]
  proof (rule ok_pbindI [OF "5.IH"(1) [OF "5.prems"]], goal_cases)
    case (1 left rest)
    show ?case
    proof (cases "rest \<noteq> [] \<and> fst (hd rest) = ''OP''")
      case False
      then show ?thesis using 1 by auto
    next
      case True
      have le: "length (tl rest) \<le> n" using 1 "5.prems" by simp
      have "ok (parse_term n (tl rest)) (length (tl rest))"
        using "5.IH"(2) [OF 1(1) True le] .
      then have "ok (pbind (parse_term n (tl rest)) (\<lambda>right rest'.
              Some (Inr (Cmp (snd (hd rest)) left right, rest')))) (length toks)"
        by (rule ok_pbindI) (use 1 in auto)
      then show ?thesis using True by simp
    qed
  qed
next
  case (6 n toks)
  show ?case
  proof (cases "toks = []")
    case True
    then show ?thesis unfolding parse_term.simps [of n toks] by auto
  next
    case ne: False
    show ?thesis
    proof (cases "fst (hd toks) = ''LPAREN''")
      case True
      obtain m where n: "n = Suc m" and m: "length (tl toks) \<le> m"
        using ne "6.prems" by (cases n; cases toks) auto
      have "ok (pbind (parse_or m (tl toks)) (expect ''RPAREN'')) (length (tl toks))"
        by (rule ok_pbindI [OF "6.IH"(1) [OF ne True n m]]) (auto intro: ok_expect)
      then show ?thesis
        unfolding parse_term.simps [of n toks] using ne True n by (auto intro: ok_mono)
    next
      case nl: False
      show ?thesis
      proof (cases "fst (hd toks) = ''IDENT'' \<and> tl toks \<noteq> [] \<and> fst (hd (tl toks)) = ''LPAREN''")
        case True
        obtain m where n: "n = Suc m" and m: "length (tl (tl toks)) \<le> m"
          using ne "6.prems" by (cases n; cases toks) auto
        have "ok (pbind (parse_args m (tl (tl toks))) (\<lambda>args.
                             expect ''RPAREN'' (Call (snd (hd toks)) args))) (length (tl (tl toks)))"
          by (rule ok_pbindI [OF "6.IH"(2) [OF ne nl _ _ n m]]) (use True in \<open>auto intro: ok_expect\<close>)
        then show ?thesis
          unfolding parse_term.simps [of n toks] using ne nl True n by (auto intro: ok_mono)
      next
        case False
        then show ?thesis
          unfolding parse_term.simps [of n toks] using ne nl by auto
      qed
    qed
  qed
next
  case (7 n toks)
  show ?case
  proof (cases "toks \<noteq> [] \<and> fst (hd toks) \<noteq> ''RPAREN''")
    case False
    then show ?thesis unfolding parse_args.simps [of n toks] by auto
  next
    case True
    have "ok (pbind (parse_or n toks) (\<lambda>a. args_loop n [a])) (length toks)"
      by (rule ok_pbindI [OF "7.IH"(1) [OF True "7.prems"]])
         (use "7.IH"(2) [OF True] "7.prems" in \<open>auto intro: ok_mono\<close>)
    then show ?thesis unfolding parse_args.simps [of n toks] using True by simp
  qed
next
  case (8 n args toks)
  show ?case
  proof (cases "toks \<noteq> [] \<and> fst (hd toks) = ''COMMA''")
    case False
    then show ?thesis unfolding args_loop.simps [of n args toks] by auto
  next
    case True
    then obtain m where n: "n = Suc m" and m: "length (tl toks) \<le> m"
      using "8.prems" by (cases n; cases toks) auto
    have "ok (pbind (parse_or m (tl toks)) (\<lambda>a. args_loop m (args @ [a]))) (length (tl toks))"
      by (rule ok_pbindI [OF "8.IH"(1) [OF True n m]])
         (use "8.IH"(2) [OF True n] m in \<open>auto intro: ok_mono\<close>)
    then show ?thesis
      unfolding args_loop.simps [of n args toks] using True n by (auto intro: ok_mono)
  qed
qed


text \<open>\<^verbatim>\<open>Parser.parse\<close> and \<^verbatim>\<open>parse_expression\<close>.\<close>

definition parse :: "token list \<Rightarrow> py_error + ast" where
  "parse toks =
     (case parse_or (length toks) toks of
        Some (Inl e) \<Rightarrow> Inl e
      | Some (Inr p) \<Rightarrow> if snd p \<noteq> []
                         then Inl (RulesError ''Unexpected token at end of expression'')
                         else Inr (fst p)
      | None \<Rightarrow> Inl (RulesError []))"

definition parse_expression :: "string \<Rightarrow> py_error + ast" where
  "parse_expression expr =
     (case tokenize expr of Inl e \<Rightarrow> Inl e | Inr tokens \<Rightarrow> parse tokens)"

subsection \<open>Evaluator\<close>

text \<open>
  What \<^verbatim>\<open>eval_ast\<close> returns: a column (\<^verbatim>\<open>pd.Series\<close>) or a Python scalar. A number literal
  is a float, a text literal a \<^verbatim>\<open>str\<close>; \<^verbatim>\<open>pd.isna\<close> of a scalar is a \<^verbatim>\<open>bool\<close> and \<^verbatim>\<open>~\<close> of a
  \<^verbatim>\<open>bool\<close> is an \<^verbatim>\<open>int\<close>.
\<close>

datatype scalar = SFloat real | SStr string | SBool bool | SInt int

datatype pyval = Series series | Scalar scalar

fun cell_of_scalar :: "scalar \<Rightarrow> cell" where
  "cell_of_scalar (SFloat r) = Num r"
| "cell_of_scalar (SInt i) = Num (of_int i)"
| "cell_of_scalar (SBool b) = Bool b"
| "cell_of_scalar (SStr s) = Str s"

text \<open>
  The operations of pandas and of the standard library that the checks call and that
  this development does not define are taken as parameters; every theorem holds for
  each choice of them.
  \<^item> \<open>cmp_mixed\<close>, \<open>logic_mixed\<close>: a comparison, or \<^verbatim>\<open>&\<close> / \<^verbatim>\<open>|\<close>, on operand kinds outside the
    cases spelled out in \<open>compare_values\<close> and \<open>logic_values\<close> below (a numeric column
    against a text, \<^verbatim>\<open>&\<close> on a column that is not boolean, ...);
  \<^item> \<open>invert_mixed\<close>: \<^verbatim>\<open>~result.fillna(False)\<close> on a column that is not boolean, as
    \<^verbatim>\<open>int(invalid_mask.sum())\<close> and the row labels \<^verbatim>\<open>df.index[invalid_mask]\<close>;
  \<^item> \<open>to_numeric\<close>, \<open>to_datetime\<close>: \<^verbatim>\<open>pd.to_numeric\<close> and \<^verbatim>\<open>pd.to_datetime\<close> with
    \<^verbatim>\<open>errors="coerce"\<close> on one cell (\<open>None\<close> for NaN / NaT);
  \<^item> \<open>is_future\<close>: whether the cell's date is after \<^verbatim>\<open>pd.Timestamp.now()\<close>, the clock
    being read once per column;
  \<^item> \<open>astype_str\<close>, \<open>lower_strip\<close>: \<^verbatim>\<open>str(cell)\<close>, and \<^verbatim>\<open>.str.lower().str.strip()\<close>;
  \<^item> \<open>re_compile\<close>: \<^verbatim>\<open>re.compile\<close> followed by \<^verbatim>\<open>match\<close>; \<open>None\<close> when the pattern is
    rejected (\<^verbatim>\<open>re.error\<close>);
  \<^item> \<open>isin\<close>: membership of a cell in the allowed values, as \<^verbatim>\<open>Series.isin\<close> decides it;
  \<^item> \<open>infer_types\<close>: \<^verbatim>\<open>infer_column_types\<close>, whose result only labels the metrics;
  \<^item> \<open>quantile64\<close>, \<open>round64\<close>: \<^verbatim>\<open>Series.quantile\<close> on the values that are present, and
    the rounding of a real number to the nearest float64.
\<close>

record pandas_lib =
  cmp_mixed :: "string \<Rightarrow> pyval \<Rightarrow> pyval \<Rightarrow> py_error + pyval"
  logic_mixed :: "string \<Rightarrow> pyval \<Rightarrow> pyval \<Rightarrow> py_error + pyval"
  invert_mixed :: "series \<Rightarrow> py_error + int \<times> nat list"
  to_numeric :: "cell \<Rightarrow> real option"
  to_datetime :: "cell \<Rightarrow> real option"
  is_future :: "string \<Rightarrow> cell \<Rightarrow> bool"
  astype_str :: "cell \<Rightarrow> string"
  lower_strip :: "string \<Rightarrow> string"
  re_compile :: "string \<Rightarrow> (string \<Rightarrow> bool) option"
  isin :: "cell \<Rightarrow> cell list \<Rightarrow> bool"
  infer_types :: "dataframe \<Rightarrow> (string \<times> string) list"
  quantile64 :: "real list \<Rightarrow> real \<Rightarrow> real"
  round64 :: "real \<Rightarrow> real"

text \<open>
  Python's comparison of two objects that are not missing: numbers (booleans count as
  0 and 1) by value, texts by code points; a text against a number is unequal, and
  cannot be ordered (\<^verbatim>\<open>TypeError\<close>).
\<close>

fun num_of :: "cell \<Rightarrow> real option" where
  "num_of (Num r) = Some r"
| "num_of (Bool b) = Some (if b then 1 else 0)"
| "num_of c = None"

fun str_less :: "string \<Rightarrow> string \<Rightarrow> bool" where
  "str_less xs [] = False"
| "str_less [] (y # ys) = True"
| "str_less (x # xs) (y # ys) =
     ((of_char x :: nat) < of_char y \<or> (x = y \<and> str_less xs ys))"

definition cmp_ops :: "string list" where
  "cmp_ops = [''<'', ''<='', ''>'', ''>='', ''=='', ''!='']"

definition cmp_num :: "string \<Rightarrow> real \<Rightarrow> real \<Rightarrow> bool" where
  "cmp_num op a b =
     (if op = ''<'' then a < b else if op = ''<='' then a \<le> b
      else if op = ''>'' then a > b else if op = ''>='' then a \<ge> b
      else if op = ''=='' then a = b else a \<noteq> b)"

definition cmp_str :: "string \<Rightarrow> string \<Rightarrow> string \<Rightarrow> bool" where
  "cmp_str op a b =
     (if op = ''<'' then str_less a b else if op = ''<='' then \<not> str_less b a
      else if op = ''>'' then str_less b a else if op = ''>='' then \<not> str_less a b
      else if op = ''=='' then a = b else a \<noteq> b)"

definition py_compare :: "string \<Rightarrow> cell \<Rightarrow> cell \<Rightarrow> py_error + bool" where
  "py_compare op a b =
     (case (a, b) of
        (Str s, Str t) \<Rightarrow> Inr (cmp_str op s t)
      | _ \<Rightarrow>
          (case (num_of a, num_of b) of
             (Some x, Some y) \<Rightarrow> Inr (cmp_num op x y)
           | _ \<Rightarrow> if op = ''=='' then Inr False
                  else if op = ''!='' then Inr True
                  else Inl TypeError))"

text \<open>
  One row of a column comparison. NumPy and pandas compare a missing value as false,
  and as true under \<^verbatim>\<open>!=\<close>; no row of the result is missing.
\<close>

definition row_compare :: "string \<Rightarrow> cell \<Rightarrow> cell \<Rightarrow> py_error + bool" where
  "row_compare op a b =
     (if a = Null \<or> b = Null then Inr (op = ''!='') else py_compare op a b)"

fun collect :: "(py_error + bool) list \<Rightarrow> py_error + series" where
  "collect [] = Inr []"
| "collect (Inl e # rs) = Inl e"
| "collect (Inr b # rs) = (case collect rs of Inl e \<Rightarrow> Inl e | Inr xs \<Rightarrow> Inr (Bool b # xs))"

text \<open>
  An operand is numeric when it is a column of numeric or boolean dtype or a scalar
  other than a text. The spelled-out cases of a comparison with a column: both
  operands numeric, or the column whose method runs (the left one, or the right one
  when the left operand is a scalar) of \<^verbatim>\<open>object\<close> dtype, where pandas compares row by row.
\<close>

fun numeric_operand :: "pyval \<Rightarrow> bool" where
  "numeric_operand (Series xs) = (dtype_of xs \<noteq> DObject)"
| "numeric_operand (Scalar (SStr s)) = False"
| "numeric_operand (Scalar s) = True"

fun compare_values :: "pandas_lib \<Rightarrow> string \<Rightarrow> pyval \<Rightarrow> pyval \<Rightarrow> py_error + pyval" where
  "compare_values L op (Scalar a) (Scalar b) =
     (case py_compare op (cell_of_scalar a) (cell_of_scalar b) of
        Inl e \<Rightarrow> Inl e | Inr r \<Rightarrow> Inr (Scalar (SBool r)))"
| "compare_values L op (Series xs) (Scalar b) =
     (if (numeric_operand (Series xs) \<and> numeric_operand (Scalar b)) \<or> dtype_of xs = DObject
      then (case collect (map (\<lambda>x. row_compare op x (cell_of_scalar b)) xs) of
              Inl e \<Rightarrow> Inl e | Inr m \<Rightarrow> Inr (Series m))
      else cmp_mixed L op (Series xs) (Scalar b))"
| "compare_values L op (Scalar a) (Series ys) =
     (if (numeric_operand (Scalar a) \<and> numeric_operand (Series ys)) \<or> dtype_of ys = DObject
      then (case collect (map (\<lambda>y. row_compare op (cell_of_scalar a) y) ys) of
              Inl e \<Rightarrow> Inl e | Inr m \<Rightarrow> Inr (Series m))
      else cmp_mixed L op (Scalar a) (Series ys))"
| "compare_values L op (Series xs) (Series ys) =
     (if (numeric_operand (Series xs) \<and> numeric_operand (Series ys)) \<or> dtype_of xs = DObject
      then (case collect (map (\<lambda>p. row_compare op (fst p) (snd p)) (zip xs ys)) of
              Inl e \<Rightarrow> Inl e | Inr m \<Rightarrow> Inr (Series m))
      else cmp_mixed L op (Series xs) (Series ys))"

text \<open>
  \<^verbatim>\<open>&\<close> and \<^verbatim>\<open>|\<close>. Between two Python scalars: booleans give a boolean, integers and
  booleans combine bit by bit, a float or a text raises \<^verbatim>\<open>TypeError\<close>. Between boolean
  operands of which one is a column: row by row.
\<close>

fun bool_operand :: "pyval \<Rightarrow> bool" where
  "bool_operand (Series xs) = list_all is_bool_cell xs"
| "bool_operand (Scalar (SBool b)) = True"
| "bool_operand (Scalar s) = False"

fun the_bool :: "cell \<Rightarrow> bool" where
  "the_bool (Bool b) = b"
| "the_bool c = False"

definition logic_bool :: "string \<Rightarrow> bool \<Rightarrow> bool \<Rightarrow> bool" where
  "logic_bool op a b = (if op = ''and'' then a \<and> b else a \<or> b)"

definition logic_int :: "string \<Rightarrow> int \<Rightarrow> int \<Rightarrow> int" where
  "logic_int op a b = (if op = ''and'' then and a b else or a b)"

fun int_of_scalar :: "scalar \<Rightarrow> int option" where
  "int_of_scalar (SBool b) = Some (if b then 1 else 0)"
| "int_of_scalar (SInt i) = Some i"
| "int_of_scalar s = None"

fun logic_values :: "pandas_lib \<Rightarrow> string \<Rightarrow> pyval \<Rightarrow> pyval \<Rightarrow> py_error + pyval" where
  "logic_values L op (Scalar (SBool a)) (Scalar (SBool b)) = Inr (Scalar (SBool (logic_bool op a b)))"
| "logic_values L op (Scalar a) (Scalar b) =
     (case (int_of_scalar a, int_of_scalar b) of
        (Some i, Some j) \<Rightarrow> Inr (Scalar (SInt (logic_int op i j)))
      | _ \<Rightarrow> Inl TypeError)"
| "logic_values L op (Series xs) (Scalar b) =
     (if bool_operand (Series xs) \<and> bool_operand (Scalar b)
      then Inr (Series (map (\<lambda>x. Bool (logic_bool op (the_bool x) (the_bool (cell_of_scalar b)))) xs))
      else logic_mixed L op (Series xs) (Scalar b))"
| "logic_values L op (Scalar a) (Series ys) =
     (if bool_operand (Scalar a) \<and> bool_operand (Series ys)
      then Inr (Series (map (\<lambda>y. Bool (logic_bool op (the_bool (cell_of_scalar a)) (the_bool y))) ys))
      else logic_mixed L op (Scalar a) (Series ys))"
| "logic_values L op (Series xs) (Series ys) =
     (if bool_operand (Series xs) \<and> bool_operand (Series ys)
      then Inr (Series (map (\<lambda>p. Bool (logic_bool op (the_bool (fst p)) (the_bool (snd p)))) (zip xs ys)))
      else logic_mixed L op (Series xs) (Series ys))"

text \<open>\<^verbatim>\<open>pd.isna(value)\<close> and \<^verbatim>\<open>~pd.isna(value)\<close>.\<close>

fun isna_value :: "pyval \<Rightarrow> pyval" where
  "isna_value (Series xs) = Series (map (\<lambda>x. Bool (isna x)) xs)"
| "isna_value (Scalar s) = Scalar (SBool False)"

fun notna_value :: "pyval \<Rightarrow> pyval" where
  "notna_value (Series xs) = Series (map (\<lambda>x. Bool (\<not> isna x)) xs)"
| "notna_value (Scalar s) = Scalar (SInt (- 1))"

definition allowed_funcs :: "string list" where
  "allowed_funcs = [''is_null'', ''not_null'']"

text \<open>\<^verbatim>\<open>eval_ast\<close>. Operands are evaluated left to right and the first exception is raised.\<close>

fun eval_ast :: "pandas_lib \<Rightarrow> ast \<Rightarrow> dataframe \<Rightarrow> py_error + pyval" where
  "eval_ast L (Ident name) df =
     (if name \<notin> set (df_columns df)
      then Inl (RulesError (''Unknown column in expression: '' @ name))
      else Inr (Series (df_col df name)))"
| "eval_ast L (Number x) df = Inr (Scalar (SFloat x))"
| "eval_ast L (String s) df = Inr (Scalar (SStr s))"
| "eval_ast L (Call func args) df =
     (if func \<notin> set allowed_funcs then Inl (RulesError (''Function not allowed: '' @ func))
      else (case args of
              [a] \<Rightarrow>
                (case eval_ast L a df of
                   Inl e \<Rightarrow> Inl e
                 | Inr v \<Rightarrow> if func = ''is_null'' then Inr (isna_value v) else Inr (notna_value v))
            | _ \<Rightarrow> Inl (RulesError ''Functions require a single argument'')))"
| "eval_ast L (Cmp op left right) df =
     (case eval_ast L left df of
        Inl e \<Rightarrow> Inl e
      | Inr left_val \<Rightarrow>
          (case eval_ast L right df of
             Inl e \<Rightarrow> Inl e
           | Inr right_val \<Rightarrow>
               if op \<in> set cmp_ops then compare_values L op left_val right_val
               else Inl (RulesError (''Unknown operator: '' @ op))))"
| "eval_ast L (And left right) df =
     (case eval_ast L left df of
        Inl e \<Rightarrow> Inl e
      | Inr left_val \<Rightarrow>
          (case eval_ast L right df of
             Inl e \<Rightarrow> Inl e
           | Inr right_val \<Rightarrow> logic_values L ''and'' left_val right_val))"
| "eval_ast L (Or left right) df =
     (case eval_ast L left df of
        Inl e \<Rightarrow> Inl e
      | Inr left_val \<Rightarrow>
          (case eval_ast L right df of
             Inl e \<Rightarrow> Inl e
           | Inr right_val \<Rightarrow> logic_values L ''or'' left_val right_val))"

text \<open>\<^verbatim>\<open>evaluate_row_rule\<close>; \<^verbatim>\<open>bool(result)\<close> of a scalar result is repeated for every row.\<close>

fun py_bool :: "scalar \<Rightarrow> bool" where
  "py_bool (SFloat r) = (r \<noteq> 0)"
| "py_bool (SStr s) = (s \<noteq> [])"
| "py_bool (SBool b) = b"
| "py_bool (SInt i) = (i \<noteq> 0)"

definition evaluate_row_rule :: "pandas_lib \<Rightarrow> string \<Rightarrow> dataframe \<Rightarrow> py_error + series" where
  "evaluate_row_rule L expr df =
     (case parse_expression expr of
        Inl e \<Rightarrow> Inl e
      | Inr tree \<Rightarrow>
          (case eval_ast L tree df of
             Inl e \<Rightarrow> Inl e
           | Inr (Series xs) \<Rightarrow> Inr xs
           | Inr (Scalar s) \<Rightarrow> Inr (replicate (df_len df) (Bool (py_bool s)))))"

subsection \<open>Rule sets\<close>

text \<open>
  The dataclasses \<^verbatim>\<open>ColumnRule\<close>, \<^verbatim>\<open>RowRule\<close> and \<^verbatim>\<open>Rules\<close>, with the field types they
  declare; the \<^verbatim>\<open>columns\<close> dict is the list of its items.
\<close>

record column_rule =
  cr_type :: "string option"
  cr_required :: bool
  cr_min :: "real option"
  cr_max :: "real option"
  cr_regex :: "string option"
  cr_allowed :: "cell list option"
  cr_not_future :: bool

record row_rule =
  rr_name :: string
  rr_expr :: string

record rules =
  r_columns :: "(string \<times> column_rule) list"
  r_unique_keys :: "string list list"
  r_row_rules :: "row_rule list"

definition validate_column_rules :: "string list \<Rightarrow> rules \<Rightarrow> string list" where
  "validate_column_rules cols rs = filter (\<lambda>rule_col. rule_col \<notin> set cols) (map fst (r_columns rs))"

section \<open>Outliers (\<^verbatim>\<open>dqa/checks/outliers.py\<close>)\<close>

text \<open>
  \<^verbatim>\<open>pd.to_numeric(df[col], errors="coerce")\<close> on a column of numeric dtype leaves it as it
  is: a float per number, NaN (\<open>None\<close>) per missing cell.
\<close>

fun num_value :: "cell \<Rightarrow> real option" where
  "num_value (Num r) = Some r"
| "num_value c = None"

definition notna_values :: "real option list \<Rightarrow> real list" where
  "notna_values xs = map the (filter (\<lambda>x. x \<noteq> None) xs)"

text \<open>
  The quartiles and the fence, as the source computes them in float64: the numbers of
  the cells and the two quantiles are float64 values, and each of \<^verbatim>\<open>q3 - q1\<close>,
  \<^verbatim>\<open>1.5 * iqr\<close>, \<^verbatim>\<open>q1 - 1.5 * iqr\<close> and \<^verbatim>\<open>q3 + 1.5 * iqr\<close> is rounded to the nearest float64
  (\<open>round64\<close>). \<^verbatim>\<open>Series.quantile\<close> (\<open>quantile64\<close>) and the rounding are parameters. Values are
  finite and no operation overflows. The check calls the quantile on columns with at
  least one value only.
\<close>

definition fence :: "pandas_lib \<Rightarrow> real list \<Rightarrow> real \<times> real" where
  "fence L vals =
     (let q1 = quantile64 L vals (1 / 4);
          q3 = quantile64 L vals (3 / 4);
          iqr = round64 L (q3 - q1);
          lower = round64 L (q1 - round64 L (3 / 2 * iqr));
          upper = round64 L (q3 + round64 L (3 / 2 * iqr))
      in (lower, upper))"

text \<open>\<^verbatim>\<open>(series < lower) | (series > upper)\<close>; a comparison with NaN is false.\<close>

definition outlier_mask :: "real option list \<Rightarrow> real \<Rightarrow> real \<Rightarrow> bool list" where
  "outlier_mask xs lower upper =
     map (\<lambda>x. case x of None \<Rightarrow> False | Some v \<Rightarrow> v < lower \<or> v > upper) xs"

record col_outliers =
  outlier_count :: nat
  outlier_pct :: real

record outlier_metrics =
  om_global :: col_outliers
  om_columns :: "(string \<times> col_outliers) list"

record outlier_state =
  os_columns :: "(string \<times> col_outliers) list"
  os_issues :: "issue list"
  os_total_numeric :: nat
  os_total_outliers :: nat

definition outliers_step ::
  "pandas_lib \<Rightarrow> dataframe \<Rightarrow> string \<Rightarrow> outlier_state \<Rightarrow> outlier_state" where
  "outliers_step L df col st =
     (if dtype_of (df_col df col) = DBool \<or> \<not> is_numeric_dtype (dtype_of (df_col df col))
      then st
      else
        (let series = map num_value (df_col df col);
             notna = length (notna_values series)
         in if notna = 0 then st
            else
              (let lower = fst (fence L (notna_values series));
                   upper = snd (fence L (notna_values series));
                   outliers = outlier_mask series lower upper;
                   outlier_count = mask_sum outliers;
                   outlier_pct = rate outlier_count notna
               in \<lparr>os_columns = AList.update col
                      \<lparr>outlier_count = outlier_count, outlier_pct = outlier_pct\<rparr> (os_columns st),
                    os_issues = (if outlier_count \<noteq> 0
                      then os_issues st @ [\<lparr>itype = ''outliers'', icolumns = [col],
                             icount = int outlier_count,
                             iexamples = rows_to_examples
                               (map Of_cell (select (df_col df col) outliers))\<rparr>]
                      else os_issues st),
                    os_total_numeric = os_total_numeric st + notna,
                    os_total_outliers = os_total_outliers st + outlier_count\<rparr>)))"

definition compute_outliers :: "pandas_lib \<Rightarrow> dataframe \<Rightarrow> outlier_metrics \<times> issue list" where
  "compute_outliers L df =
     (let st = fold (outliers_step L df) (df_columns df)
                 \<lparr>os_columns = [], os_issues = [], os_total_numeric = 0, os_total_outliers = 0\<rparr>;
          outlier_pct_total = rate (os_total_outliers st) (os_total_numeric st)
      in (\<lparr>om_global = \<lparr>outlier_count = os_total_outliers st, outlier_pct = outlier_pct_total\<rparr>,
           om_columns = os_columns st\<rparr>, os_issues st))"

section \<open>Consistency (\<^verbatim>\<open>dqa/checks/consistency.py\<close>)\<close>

record rule_metric =
  rm_invalid_count :: int
  rm_invalid_pct :: real
  rm_expr :: string

record consistency_metrics =
  cons_invalid_count :: int
  cons_invalid_pct :: real
  cons_rules :: "(string \<times> rule_metric) list"

record consistency_state =
  cs_issues :: "issue list"
  cs_total_invalid :: int
  cs_rule_metrics :: "(string \<times> rule_metric) list"

definition rate_int :: "int \<Rightarrow> nat \<Rightarrow> real" where
  "rate_int cnt tot = (if tot \<noteq> 0 then real_of_int cnt / real tot else 0)"

text \<open>
  \<^verbatim>\<open>~result.fillna(False)\<close> with its sum and the labels of its rows: on a boolean result
  nothing is filled and \<^verbatim>\<open>~\<close> negates each row.
\<close>

definition invalid_rows :: "pandas_lib \<Rightarrow> series \<Rightarrow> py_error + int \<times> nat list" where
  "invalid_rows L result =
     (if list_all is_bool_cell result
      then (let invalid_mask = map (\<lambda>c. \<not> the_bool c) result
            in Inr (int (mask_sum invalid_mask), index_where invalid_mask))
      else invert_mixed L result)"

text \<open>
  The body of \<^verbatim>\<open>for rule in rules.row_rules\<close>. Only \<^verbatim>\<open>RulesError\<close> is caught; any other
  exception leaves the check.
\<close>

definition consistency_step ::
  "pandas_lib \<Rightarrow> dataframe \<Rightarrow> row_rule \<Rightarrow> consistency_state \<Rightarrow> py_error + consistency_state" where
  "consistency_step L df rule st =
     (case evaluate_row_rule L (rr_expr rule) df of
        Inl (RulesError msg) \<Rightarrow>
          Inr (st\<lparr>cs_issues := cs_issues st @
                    [\<lparr>itype = ''row_rule_error'', icolumns = [], icount = 0,
                      iexamples = [Of_text msg]\<rparr>],
                  cs_rule_metrics := AList.update (rr_name rule)
                    \<lparr>rm_invalid_count = 0, rm_invalid_pct = 0, rm_expr = rr_expr rule\<rparr>
                    (cs_rule_metrics st)\<rparr>)
      | Inl e \<Rightarrow> Inl e
      | Inr result \<Rightarrow>
          (case invalid_rows L result of
             Inl e \<Rightarrow> Inl e
           | Inr (invalid_count, labels) \<Rightarrow>
               Inr \<lparr>cs_issues = (if invalid_count \<noteq> 0
                      then cs_issues st @
                        [\<lparr>itype = ''row_rule_violation'', icolumns = [], icount = invalid_count,
                          iexamples = rows_to_examples (map Of_row labels)\<rparr>]
                      else cs_issues st),
                    cs_total_invalid = cs_total_invalid st + invalid_count,
                    cs_rule_metrics = AList.update (rr_name rule)
                      \<lparr>rm_invalid_count = invalid_count,
                        rm_invalid_pct = rate_int invalid_count (df_len df),
                        rm_expr = rr_expr rule\<rparr> (cs_rule_metrics st)\<rparr>))"

fun consistency_loop ::
  "pandas_lib \<Rightarrow> dataframe \<Rightarrow> row_rule list \<Rightarrow> consistency_state \<Rightarrow> py_error + consistency_state" where
  "consistency_loop L df [] st = Inr st"
| "consistency_loop L df (rule # rest) st =
     (case consistency_step L df rule st of
        Inl e \<Rightarrow> Inl e
      | Inr st' \<Rightarrow> consistency_loop L df rest st')"

definition compute_consistency ::
  "pandas_lib \<Rightarrow> dataframe \<Rightarrow> rules option \<Rightarrow> py_error + consistency_metrics \<times> issue list" where
  "compute_consistency L df rules_opt =
     (case rules_opt of
        None \<Rightarrow> Inr (\<lparr>cons_invalid_count = 0, cons_invalid_pct = 0, cons_rules = []\<rparr>, [])
      | Some rs \<Rightarrow>
          if r_row_rules rs = []
          then Inr (\<lparr>cons_invalid_count = 0, cons_invalid_pct = 0, cons_rules = []\<rparr>, [])
          else (case consistency_loop L df (r_row_rules rs)
                       \<lparr>cs_issues = [], cs_total_invalid = 0, cs_rule_metrics = []\<rparr> of
                  Inl e \<Rightarrow> Inl e
                | Inr st \<Rightarrow>
                    Inr (\<lparr>cons_invalid_count = cs_total_invalid st,
                          cons_invalid_pct = rate_int (cs_total_invalid st) (df_len df),
                          cons_rules = cs_rule_metrics st\<rparr>, cs_issues st)))"

section \<open>Validity (\<^verbatim>\<open>dqa/checks/validity.py\<close>)\<close>

definition bool_strings :: "string list" where
  "bool_strings = [''true'', ''false'', ''yes'', ''no'', ''0'', ''1'']"

definition invalid_by_type :: "pandas_lib \<Rightarrow> series \<Rightarrow> string \<Rightarrow> bool list" where
  "invalid_by_type L xs rule_type =
     (if rule_type = ''int''
      then map (\<lambda>c. case to_numeric L c of None \<Rightarrow> True | Some x \<Rightarrow> x \<notin> \<int>) xs
      else if rule_type = ''float'' then map (\<lambda>c. to_numeric L c = None) xs
      else if rule_type = ''bool''
      then map (\<lambda>c. lower_strip L (astype_str L c) \<notin> set bool_strings) xs
      else if rule_type = ''date'' then map (\<lambda>c. to_datetime L c = None) xs
      else replicate (length xs) False)"

record col_invalid =
  invalid_count :: nat
  invalid_pct :: real

record col_validity = col_invalid +
  inferred_type :: string

record validity_metrics =
  vm_global :: col_invalid
  vm_columns :: "(string \<times> col_validity) list"

text \<open>
  One rule kind of one column: when its mask holds anywhere, the mask is or-ed into the
  column's \<^verbatim>\<open>invalid_mask\<close> and an issue with the mask's own count is appended.
\<close>

definition mask_or :: "bool list \<Rightarrow> bool list \<Rightarrow> bool list" where
  "mask_or a b = map (\<lambda>p. fst p \<or> snd p) (zip a b)"

definition add_check ::
  "bool list \<Rightarrow> string \<Rightarrow> string \<Rightarrow> example list \<Rightarrow> bool list \<times> issue list
     \<Rightarrow> bool list \<times> issue list" where
  "add_check m kind col vals st =
     (if list_ex id m
      then (mask_or (fst st) m,
            snd st @ [\<lparr>itype = kind, icolumns = [col], icount = int (mask_sum m),
                      iexamples = rows_to_examples vals\<rparr>])
      else st)"

definition truthy :: "'a list option \<Rightarrow> bool" where
  "truthy x = (case x of None \<Rightarrow> False | Some v \<Rightarrow> v \<noteq> [])"

text \<open>
  The rule kinds of one column, in the order of the source. The regex mask and the
  allowed-values mask hold on the rows that are present and do not match; an invalid
  pattern raises out of \<^verbatim>\<open>str.match\<close>.
\<close>

definition column_checks ::
  "pandas_lib \<Rightarrow> string \<Rightarrow> series \<Rightarrow> column_rule \<Rightarrow> bool list \<times> issue list
     \<Rightarrow> py_error + bool list \<times> issue list" where
  "column_checks L col xs cr st0 =
     (let st1 = (if cr_required cr
                 then add_check (map isna xs) ''required_missing'' col
                        (map Of_cell (select xs (map isna xs))) st0
                 else st0);
          st2 = (if truthy (cr_type cr)
                 then add_check (invalid_by_type L xs (the (cr_type cr))) ''type_mismatch'' col
                        (map Of_cell (select xs (invalid_by_type L xs (the (cr_type cr))))) st1
                 else st1);
          st3 = (case cr_min cr of
                   None \<Rightarrow> st2
                 | Some lo \<Rightarrow>
                     (let too_low = map (\<lambda>c. case to_numeric L c of None \<Rightarrow> False
                                               | Some x \<Rightarrow> x < lo) xs
                      in add_check too_low ''below_min'' col (map Of_cell (select xs too_low)) st2));
          st4 = (case cr_max cr of
                   None \<Rightarrow> st3
                 | Some hi \<Rightarrow>
                     (let too_high = map (\<lambda>c. case to_numeric L c of None \<Rightarrow> False
                                                | Some x \<Rightarrow> x > hi) xs
                      in add_check too_high ''above_max'' col (map Of_cell (select xs too_high)) st3))
      in case (if truthy (cr_regex cr)
               then (case re_compile L (the (cr_regex cr)) of
                       None \<Rightarrow> Inl PatternError
                     | Some matches \<Rightarrow>
                         (let mismatch = map (\<lambda>c. \<not> isna c \<and> \<not> matches (astype_str L c)) xs
                          in Inr (add_check mismatch ''regex_mismatch'' col
                                    (map (\<lambda>c. Of_text (astype_str L c)) (select xs mismatch)) st4)))
               else Inr st4) of
           Inl e \<Rightarrow> Inl e
         | Inr st5 \<Rightarrow>
             (let st6 = (if truthy (cr_allowed cr)
                         then (let mismatch = map (\<lambda>c. \<not> isna c \<and> \<not> isin L c (the (cr_allowed cr))) xs
                               in add_check mismatch ''not_allowed'' col
                                    (map Of_cell (select xs mismatch)) st5)
                         else st5);
                  st7 = (if cr_not_future cr
                         then (let future = map (is_future L col) xs
                               in add_check future ''date_in_future'' col
                                    (map Of_cell (select xs future)) st6)
                         else st6)
              in Inr st7))"

record validity_state =
  vs_columns :: "(string \<times> col_validity) list"
  vs_issues :: "issue list"
  vs_invalid_total :: nat

definition lookup_type :: "(string \<times> string) list \<Rightarrow> string \<Rightarrow> string" where
  "lookup_type inferred col = (case map_of inferred col of None \<Rightarrow> ''string'' | Some t \<Rightarrow> t)"

definition validity_step ::
  "pandas_lib \<Rightarrow> dataframe \<Rightarrow> rules option \<Rightarrow> (string \<times> string) list \<Rightarrow> string
     \<Rightarrow> validity_state \<Rightarrow> py_error + validity_state" where
  "validity_step L df rules_opt inferred col st =
     (let xs = df_col df col;
          rules_for_col = (case rules_opt of None \<Rightarrow> None | Some rs \<Rightarrow> map_of (r_columns rs) col);
          st0 = (replicate (df_len df) False, vs_issues st)
      in case (case rules_for_col of None \<Rightarrow> Inr st0
               | Some cr \<Rightarrow> column_checks L col xs cr st0) of
           Inl e \<Rightarrow> Inl e
         | Inr res \<Rightarrow>
             (let invalid_count = mask_sum (fst res)
              in Inr \<lparr>vs_columns = AList.update col
                         \<lparr>invalid_count = invalid_count,
                           invalid_pct = rate invalid_count (df_len df),
                           inferred_type = lookup_type inferred col\<rparr> (vs_columns st),
                       vs_issues = snd res,
                       vs_invalid_total = vs_invalid_total st + invalid_count\<rparr>))"

fun validity_loop ::
  "pandas_lib \<Rightarrow> dataframe \<Rightarrow> rules option \<Rightarrow> (string \<times> string) list \<Rightarrow> string list
     \<Rightarrow> validity_state \<Rightarrow> py_error + validity_state" where
  "validity_loop L df rules_opt inferred [] st = Inr st"
| "validity_loop L df rules_opt inferred (col # rest) st =
     (case validity_step L df rules_opt inferred col st of
        Inl e \<Rightarrow> Inl e
      | Inr st' \<Rightarrow> validity_loop L df rules_opt inferred rest st')"

text \<open>\<^verbatim>\<open>inferred_types or infer_column_types(df)\<close>: an empty or absent dict is inferred again.\<close>

definition compute_validity ::
  "pandas_lib \<Rightarrow> dataframe \<Rightarrow> rules option \<Rightarrow> (string \<times> string) list option
     \<Rightarrow> py_error + validity_metrics \<times> issue list" where
  "compute_validity L df rules_opt inferred_types =
     (let inferred = (if truthy inferred_types then the inferred_types else infer_types L df);
          total_cells = df_len df * length (df_columns df)
      in case validity_loop L df rules_opt inferred (df_columns df)
                \<lparr>vs_columns = [], vs_issues = [], vs_invalid_total = 0\<rparr> of
           Inl e \<Rightarrow> Inl e
         | Inr st \<Rightarrow>
             Inr (\<lparr>vm_global = \<lparr>invalid_count = vs_invalid_total st,
                                 invalid_pct = rate (vs_invalid_total st) total_cells\<rparr>,
                   vm_columns = vs_columns st\<rparr>, vs_issues st))"

section \<open>Orchestration (\<^verbatim>\<open>dqa/profiler.py\<close>)\<close>

text \<open>
  \<^verbatim>\<open>run_profile\<close>, up to the metrics, the sorted issues and the scores. The summary table
  and the metadata repeat these metrics beside the clock and the memory use, and are
  left out. \<^verbatim>\<open>sorted(..., reverse=True)\<close> is stable: issues with equal counts keep their
  order.
\<close>

record profile_result =
  pr_issues :: "issue list"
  pr_scores :: scores
  pr_completeness :: completeness_metrics
  pr_uniqueness :: uniqueness_metrics
  pr_validity :: validity_metrics
  pr_outliers :: outlier_metrics
  pr_consistency :: consistency_metrics
  pr_inferred_types :: "(string \<times> string) list"

definition missing_rule_issue :: "string \<Rightarrow> issue" where
  "missing_rule_issue col =
     \<lparr>itype = ''missing_rule_column'', icolumns = [col], icount = 1, iexamples = []\<rparr>"

definition run_profile ::
  "pandas_lib \<Rightarrow> dataframe \<Rightarrow> rules option \<Rightarrow> string list option \<Rightarrow> py_error + profile_result" where
  "run_profile L df rules_opt id_cols =
     (let inferred = infer_types L df;
          missing_rule_cols = (case rules_opt of None \<Rightarrow> []
                               | Some rs \<Rightarrow> validate_column_rules (df_columns df) rs);
          completeness = compute_completeness df
      in case compute_uniqueness_raising df id_cols
                (case rules_opt of None \<Rightarrow> None | Some rs \<Rightarrow> Some (r_unique_keys rs)) of
           Inl e \<Rightarrow> Inl e
         | Inr uniqueness \<Rightarrow>
         case compute_validity L df rules_opt (Some inferred) of
           Inl e \<Rightarrow> Inl e
         | Inr validity \<Rightarrow>
             (let outliers = compute_outliers L df
              in case compute_consistency L df rules_opt of
                   Inl e \<Rightarrow> Inl e
                 | Inr consistency \<Rightarrow>
                     (let issues = snd completeness @ snd uniqueness @ snd validity
                            @ snd outliers @ snd consistency
                            @ map missing_rule_issue missing_rule_cols;
                          sorted_issues = sort_key (\<lambda>item. - icount item) issues;
                          duplicate_key_pct =
                            profile_duplicate_key_pct (duplicates_on_key (fst uniqueness))
                      in case compute_scores
                                (missing_pct (cm_global (fst completeness)))
                                (invalid_pct (vm_global (fst validity)))
                                (duplicate_rows_pct (fst uniqueness))
                                duplicate_key_pct
                                (cons_invalid_pct (fst consistency))
                                (outlier_pct (om_global (fst outliers)))
                                None of
                           Inl e \<Rightarrow> Inl e
                         | Inr sc \<Rightarrow>
                             Inr \<lparr>pr_issues = sorted_issues, pr_scores = sc,
                                   pr_completeness = fst completeness,
                                   pr_uniqueness = fst uniqueness,
                                   pr_validity = fst validity,
                                   pr_outliers = fst outliers,
                                   pr_consistency = fst consistency,
                                   pr_inferred_types = inferred\<rparr>)))"

text \<open>
  A sample choice of the parameters, for the closed statements that need one: every
  case left to the parameters raises \<^verbatim>\<open>TypeError\<close>, numbers and booleans coerce to
  themselves, the round parenthesis alone is rejected as a pattern (as \<^verbatim>\<open>re.compile\<close>
  rejects it) while every other pattern matches every text, the quantile is the lower
  neighbour and nothing is rounded.
\<close>

definition sample_lib :: pandas_lib where
  "sample_lib =
     \<lparr>cmp_mixed = (\<lambda>op l r. Inl TypeError),
      logic_mixed = (\<lambda>op l r. Inl TypeError),
      invert_mixed = (\<lambda>xs. Inl TypeError),
      to_numeric = num_of,
      to_datetime = (\<lambda>c. None),
      is_future = (\<lambda>col c. False),
      astype_str = (\<lambda>c. case c of Str s \<Rightarrow> s | _ \<Rightarrow> ''nan''),
      lower_strip = (\<lambda>s. s),
      re_compile = (\<lambda>p. if p = ''('' then None else Some (\<lambda>s. True)),
      isin = (\<lambda>c xs. c \<in> set xs),
      infer_types = (\<lambda>df. []),
      quantile64 = (\<lambda>vals q. sort vals ! nat \<lfloor>real (length vals - 1) * q\<rfloor>),
      round64 = (\<lambda>x. x)\<rparr>"

text \<open>The value of an operand in row \<open>i\<close>; a scalar stands for itself in every row.\<close>

fun operand_row :: "pyval \<Rightarrow> nat \<Rightarrow> cell" where
  "operand_row (Series xs) i = xs ! i"
| "operand_row (Scalar s) i = cell_of_scalar s"

fun is_series :: "pyval \<Rightarrow> bool" where
  "is_series (Series xs) = True"
| "is_series (Scalar s) = False"

section \<open>Invariants of the check loops\<close>

text \<open>
  What the loops of the checks keep true of their state: rates within \<open>[0, 1]\<close>, totals
  bounded by the number of cells looked at so far, and for the consistency check a
  state in which nothing has been counted.
\<close>

definition key_ok :: "(string \<times> key_metric) list \<Rightarrow> bool" where
  "key_ok ks \<longleftrightarrow> (\<forall>p \<in> set ks. 0 \<le> km_pct (snd p) \<and> km_pct (snd p) \<le> 1)"

definition outliers_ok :: "outlier_state \<Rightarrow> bool" where
  "outliers_ok st \<longleftrightarrow> os_total_outliers st \<le> os_total_numeric st
     \<and> (\<forall>p \<in> set (os_columns st). 0 \<le> outlier_pct (snd p) \<and> outlier_pct (snd p) \<le> 1)"

definition validity_kinds :: "string list" where
  "validity_kinds = [''required_missing'', ''type_mismatch'', ''below_min'', ''above_max'',
                     ''regex_mismatch'', ''not_allowed'', ''date_in_future'']"

definition validity_ok :: "nat \<Rightarrow> nat \<Rightarrow> validity_state \<Rightarrow> bool" where
  "validity_ok n k st \<longleftrightarrow> vs_invalid_total st \<le> n * k
     \<and> (\<forall>p \<in> set (vs_columns st). 0 \<le> invalid_pct (snd p) \<and> invalid_pct (snd p) \<le> 1)"

definition consistency_ok :: "consistency_state \<Rightarrow> bool" where
  "consistency_ok st \<longleftrightarrow> cs_total_invalid st = 0
     \<and> (\<forall>p \<in> set (cs_rule_metrics st). rm_invalid_count (snd p) = 0 \<and> rm_invalid_pct (snd p) = 0)
     \<and> (\<forall>i \<in> set (cs_issues st). itype i = ''row_rule_error'' \<and> icount i = 0)"

section \<open>Facts about the data model\<close>

lemma mask_sum_le: "mask_sum m \<le> length m"
  by (simp add: mask_sum_def)

lemma df_col_member:
  assumes "distinct (map fst df)" and "(c, xs) \<in> set df"
  shows "df_col df c = xs"
  using assms by (simp add: df_col_def)

section \<open>Completeness: per-column counts add up to the global count\<close>

lemma completeness_fold_columns:
  assumes "distinct (map fst acc @ cols)"
  shows "fst (fold (completeness_step df) cols (acc, iss)) =
         acc @ map (\<lambda>c. (c, \<lparr>missing_count = mask_sum (map isna (df_col df c)),
                               missing_pct = rate (mask_sum (map isna (df_col df c))) (df_len df)\<rparr>)) cols"
  using assms
proof (induction cols arbitrary: acc iss)
  case Nil
  then show ?case by simp
next
  case (Cons c cols)
  let ?v = "\<lparr>missing_count = mask_sum (map isna (df_col df c)),
             missing_pct = rate (mask_sum (map isna (df_col df c))) (df_len df)\<rparr>"
  from Cons.prems have notin: "c \<notin> fst ` set acc" by auto
  have upd: "AList.update c ?v acc = acc @ [(c, ?v)]"
    using notin by (induction acc) auto
  from Cons.prems have d: "distinct (map fst (acc @ [(c, ?v)]) @ cols)" by auto
  obtain iss' where step: "completeness_step df c (acc, iss) = (acc @ [(c, ?v)], iss')"
    by (simp add: completeness_step_def Let_def upd)
  show ?case
    using Cons.IH [OF d, of iss'] by (simp add: step)
qed

lemma sum_missing_columns:
  assumes "distinct (map fst df)"
  shows "sum_list (map (\<lambda>c. mask_sum (map isna (df_col df c))) (map fst df)) =
         sum_list (map (\<lambda>p. mask_sum (map isna (snd p))) df)"
proof -
  have "\<And>p. p \<in> set df \<Longrightarrow> df_col df (fst p) = snd p"
    using assms df_col_member by (metis prod.collapse)
  then have "map (\<lambda>c. mask_sum (map isna (df_col df c))) (map fst df) =
             map (\<lambda>p. mask_sum (map isna (snd p))) df"
    by simp
  then show ?thesis by (simp only:)
qed

text \<open>
  C8. For every well-formed data frame, the global \<^verbatim>\<open>missing_count\<close> of the completeness
  check equals the sum, over the entries of its per-column metrics dict, of the column's
  \<^verbatim>\<open>missing_count\<close>; the dict has exactly one entry per column. On the frame
  \<^verbatim>\<open>{a: [1, null, 3], b: [null, null, 3]}\<close> the global count is 3, with 1 for \<^verbatim>\<open>a\<close> and 2
  for \<^verbatim>\<open>b\<close>.
\<close>

theorem completeness_global_is_column_sum:
  "(wf_df df \<longrightarrow>
      missing_count (cm_global (fst (compute_completeness df))) =
        sum_list (map (\<lambda>p. missing_count (snd p)) (cm_columns (fst (compute_completeness df))))
      \<and> map fst (cm_columns (fst (compute_completeness df))) = df_columns df)
   \<and> (let m = fst (compute_completeness
                [(''a'', [Num 1, Null, Num 3]), (''b'', [Null, Null, Num 3])])
      in missing_count (cm_global m) = 3
       \<and> map_of (cm_columns m) ''a'' = Some \<lparr>missing_count = 1, missing_pct = 1 / 3\<rparr>
       \<and> map_of (cm_columns m) ''b'' = Some \<lparr>missing_count = 2, missing_pct = 2 / 3\<rparr>)"
proof (intro conjI impI)
  assume wf: "wf_df df"
  then have d: "distinct (map fst df)" by (simp add: wf_df_def)
  have cols: "cm_columns (fst (compute_completeness df)) =
        map (\<lambda>c. (c, \<lparr>missing_count = mask_sum (map isna (df_col df c)),
                       missing_pct = rate (mask_sum (map isna (df_col df c))) (df_len df)\<rparr>))
            (map fst df)"
    using completeness_fold_columns [of "[]" "map fst df" df "[]"] d
    by (simp add: compute_completeness_def Let_def df_columns_def)
  show "missing_count (cm_global (fst (compute_completeness df))) =
        sum_list (map (\<lambda>p. missing_count (snd p)) (cm_columns (fst (compute_completeness df))))"
    unfolding cols using sum_missing_columns [OF d]
    by (simp add: compute_completeness_def Let_def comp_def)
  show "map fst (cm_columns (fst (compute_completeness df))) = df_columns df"
    unfolding cols by (simp add: df_columns_def comp_def)
next
  show "let m = fst (compute_completeness
                [(''a'', [Num 1, Null, Num 3]), (''b'', [Null, Null, Num 3])])
      in missing_count (cm_global m) = 3
       \<and> map_of (cm_columns m) ''a'' = Some \<lparr>missing_count = 1, missing_pct = 1 / 3\<rparr>
       \<and> map_of (cm_columns m) ''b'' = Some \<lparr>missing_count = 2, missing_pct = 2 / 3\<rparr>"
    by (simp add: compute_completeness_def completeness_step_def Let_def df_columns_def
        df_col_def df_len_def mask_sum_def rate_def)
qed

theorem completeness_global_is_column_sum_witness:
  "wf_df [(''a'', [Num 1, Null]), (''b'', [Null, Null])]
   \<and> missing_count (cm_global (fst (compute_completeness
        [(''a'', [Num 1, Null]), (''b'', [Null, Null])]))) =
     sum_list (map (\<lambda>p. missing_count (snd p)) (cm_columns (fst (compute_completeness
        [(''a'', [Num 1, Null]), (''b'', [Null, Null])]))))"
proof -
  have wf: "wf_df [(''a'', [Num 1, Null]), (''b'', [Null, Null])]"
    by (simp add: wf_df_def df_len_def)
  show ?thesis
    using wf completeness_global_is_column_sum [of "[(''a'', [Num 1, Null]), (''b'', [Null, Null])]"]
    by blast
qed

section \<open>Uniqueness: a row is a duplicate iff an identical row came earlier\<close>

lemma duplicated_from_length: "length (duplicated_from seen rows) = length rows"
  by (induction rows arbitrary: seen) auto

lemma duplicated_from_nth:
  "i < length rows \<Longrightarrow>
   duplicated_from seen rows ! i \<longleftrightarrow> rows ! i \<in> set seen \<or> (\<exists>j<i. rows ! j = rows ! i)"
proof (induction rows arbitrary: seen i)
  case Nil
  then show ?case by simp
next
  case (Cons r rs)
  show ?case
  proof (cases i)
    case 0
    then show ?thesis by simp
  next
    case (Suc k)
    with Cons.prems have k: "k < length rs" by simp
    have ex: "(\<exists>j<Suc k. (r # rs) ! j = rs ! k) \<longleftrightarrow> r = rs ! k \<or> (\<exists>j<k. rs ! j = rs ! k)"
      by (auto simp: less_Suc_eq_0_disj)
    show ?thesis
    proof (cases "r \<in> set seen")
      case True
      then show ?thesis using Cons.IH [OF k, of seen] Suc ex by auto
    next
      case False
      then show ?thesis using Cons.IH [OF k, of "r # seen"] Suc ex by auto
    qed
  qed
qed

text \<open>
  C9. In the uniqueness check the whole-row duplicate mask has one entry per row, and
  the entry of row \<open>i\<close> is set iff an identical row stands at an earlier position, so
  the first occurrence of a row is never counted; \<^verbatim>\<open>duplicate_rows_count\<close> is the number
  of set entries. On \<^verbatim>\<open>{id: [1, 1, 2], value: [10, 10, 20]}\<close> with id columns \<^verbatim>\<open>["id"]\<close>
  the check gives \<^verbatim>\<open>duplicate_rows_count = 1\<close> and a count of 1 under \<^verbatim>\<open>"id_cols"\<close>.
\<close>

theorem uniqueness_duplicate_iff_seen_earlier:
  "duplicate_rows_count (fst (compute_uniqueness df id_cols unique_keys)) =
     mask_sum (duplicated (df_rows df))
   \<and> length (duplicated (df_rows df)) = df_len df
   \<and> (\<forall>i < df_len df. duplicated (df_rows df) ! i \<longleftrightarrow>
         (\<exists>j<i. df_rows df ! j = df_rows df ! i))
   \<and> (df_len df \<noteq> 0 \<longrightarrow> \<not> duplicated (df_rows df) ! 0)
   \<and> (let m = fst (compute_uniqueness
                 [(''id'', [Num 1, Num 1, Num 2]), (''value'', [Num 10, Num 10, Num 20])]
                 (Some [''id'']) None)
      in duplicate_rows_count m = 1
       \<and> map_of (duplicates_on_key m) ''id_cols'' =
           Some \<lparr>km_count = 1, km_pct = 1 / 3, km_columns = [''id'']\<rparr>)"
proof (intro conjI allI impI)
  show "duplicate_rows_count (fst (compute_uniqueness df id_cols unique_keys)) =
     mask_sum (duplicated (df_rows df))"
    by (simp add: compute_uniqueness_def Let_def)
  show "length (duplicated (df_rows df)) = df_len df"
    by (simp add: duplicated_def duplicated_from_length df_rows_def)
  show "duplicated (df_rows df) ! i \<longleftrightarrow> (\<exists>j<i. df_rows df ! j = df_rows df ! i)"
    if "i < df_len df" for i
  proof -
    from that have "i < length (df_rows df)" by (simp add: df_rows_def)
    then show ?thesis
      using duplicated_from_nth [of i "df_rows df" "[]"] by (simp add: duplicated_def)
  qed
  show "\<not> duplicated (df_rows df) ! 0" if "df_len df \<noteq> 0"
  proof -
    from that have "0 < length (df_rows df)" by (simp add: df_rows_def)
    then show ?thesis
      using duplicated_from_nth [of 0 "df_rows df" "[]"] by (simp add: duplicated_def)
  qed
  show "let m = fst (compute_uniqueness
                 [(''id'', [Num 1, Num 1, Num 2]), (''value'', [Num 10, Num 10, Num 20])]
                 (Some [''id'']) None)
      in duplicate_rows_count m = 1
       \<and> map_of (duplicates_on_key m) ''id_cols'' =
           Some \<lparr>km_count = 1, km_pct = 1 / 3, km_columns = [''id'']\<rparr>"
    by (simp add: compute_uniqueness_def handle_key_def missing_columns_def df_columns_def
        df_subset_def df_rows_def df_len_def duplicated_def mask_sum_def rate_def Let_def
        upt_rec)
qed

theorem uniqueness_duplicate_iff_seen_earlier_witness:
  "(1::nat) < df_len [(''id'', [Num 1, Num 1, Num 2])]
   \<and> duplicated (df_rows [(''id'', [Num 1, Num 1, Num 2])]) ! 1
   \<and> \<not> duplicated (df_rows [(''id'', [Num 1, Num 1, Num 2])]) ! 0"
proof -
  have len: "(1::nat) < df_len [(''id'', [Num 1, Num 1, Num 2])]"
    by (simp add: df_len_def)
  have rows: "df_rows [(''id'', [Num 1, Num 1, Num 2])] = [[Num 1], [Num 1], [Num 2]]"
    by (simp add: df_rows_def df_len_def upt_rec)
  have "\<exists>j<1::nat. [[Num 1], [Num 1], [Num 2]] ! j = [[Num 1], [Num 1], [Num 2]] ! 1"
    by simp
  then show ?thesis
    using len uniqueness_duplicate_iff_seen_earlier
      [of "[(''id'', [Num 1, Num 1, Num 2])]" None None]
    by (simp add: rows df_len_def)
qed

section \<open>Scoring: clamped sub-scores and the weighted mean\<close>

lemma bounded_range: "0 \<le> bounded x \<and> bounded x \<le> 100"
  by (simp add: bounded_def)

lemma bounded_id: "0 \<le> x \<Longrightarrow> x \<le> 100 \<Longrightarrow> bounded x = x"
  by (simp add: bounded_def)

lemma weighted_mean_range:
  fixes a b c d e :: real and p q r s t :: real
  assumes "0 \<le> a \<and> a \<le> 100" "0 \<le> b \<and> b \<le> 100" "0 \<le> c \<and> c \<le> 100"
    "0 \<le> d \<and> d \<le> 100" "0 \<le> e \<and> e \<le> 100"
    and "0 < p" "0 < q" "0 < r" "0 < s" "0 < t"
  shows "0 \<le> (a * p + b * q + c * r + d * s + e * t) / (p + q + r + s + t)
       \<and> (a * p + b * q + c * r + d * s + e * t) / (p + q + r + s + t) \<le> 100"
proof -
  have W: "0 < p + q + r + s + t" using assms by linarith
  have lo: "0 \<le> a * p + b * q + c * r + d * s + e * t"
    using assms by (intro add_nonneg_nonneg mult_nonneg_nonneg) auto
  have "a * p \<le> 100 * p" "b * q \<le> 100 * q" "c * r \<le> 100 * r" "d * s \<le> 100 * s"
    "e * t \<le> 100 * t"
    using assms by (simp_all add: mult_right_mono)
  then have hi: "a * p + b * q + c * r + d * s + e * t \<le> 100 * (p + q + r + s + t)"
    by (simp add: algebra_simps)
  show ?thesis
    using W lo hi by (simp add: pos_divide_le_eq)
qed

lemma fold_max_is_Max:
  fixes x :: real
  shows "fold max xs x = Max (set (x # xs))"
  by (rule Max.set_eq_fold [symmetric])

text \<open>
  C7. For every rate vector and positive weights, \<^verbatim>\<open>compute_scores\<close> returns scores in
  which each of the five sub-scores is \<open>100 * (1 - rate)\<close> clamped to \<open>[0, 100]\<close>, the
  uniqueness rate being the maximum of the whole-row duplicate rate and the key-group
  rate it is given (\<open>0\<close> when there is no key group); the total is the sum of the
  sub-scores times their weights divided by the sum of the weights, with no condition
  on that sum. The key-group rate that \<^verbatim>\<open>run_profile\<close> passes is the largest \<^verbatim>\<open>pct\<close> over the
  key groups.
\<close>

theorem scores_weighted_mean:
  assumes "0 < w_completeness w" "0 < w_validity w" "0 < w_uniqueness w"
    "0 < w_consistency w" "0 < w_outliers w"
  shows "\<exists>sc. compute_scores miss_pct inv_pct dup_rows_pct dup_key_pct
           cons_pct outl_pct (Some w) = Inr sc
     \<and> s_completeness sc = max 0 (min 100 (100 * (1 - miss_pct)))
     \<and> s_validity sc = max 0 (min 100 (100 * (1 - inv_pct)))
     \<and> s_uniqueness sc = max 0 (min 100 (100 * (1 - max dup_rows_pct
           (case dup_key_pct of None \<Rightarrow> 0 | Some k \<Rightarrow> k))))
     \<and> s_consistency sc = max 0 (min 100 (100 * (1 - cons_pct)))
     \<and> s_outliers sc = max 0 (min 100 (100 * (1 - outl_pct)))
     \<and> s_total sc =
         (s_completeness sc * real_of_int (w_completeness w)
          + s_validity sc * real_of_int (w_validity w)
          + s_uniqueness sc * real_of_int (w_uniqueness w)
          + s_consistency sc * real_of_int (w_consistency w)
          + s_outliers sc * real_of_int (w_outliers w))
         / real_of_int (w_completeness w + w_validity w + w_uniqueness w
                        + w_consistency w + w_outliers w)
     \<and> (on_key \<noteq> [] \<longrightarrow> profile_duplicate_key_pct on_key =
           Some (Max (set (map (\<lambda>p. km_pct (snd p)) on_key))))"
proof -
  let ?a = "bounded (100 * (1 - miss_pct))"
  let ?b = "bounded (100 * (1 - inv_pct))"
  let ?c = "bounded (100 * (1 - max dup_rows_pct
           (case dup_key_pct of None \<Rightarrow> 0 | Some k \<Rightarrow> k)))"
  let ?d = "bounded (100 * (1 - cons_pct))"
  let ?e = "bounded (100 * (1 - outl_pct))"
  let ?W = "w_completeness w + w_validity w + w_uniqueness w + w_consistency w + w_outliers w"
  let ?num = "?a * real_of_int (w_completeness w) + ?b * real_of_int (w_validity w)
     + ?c * real_of_int (w_uniqueness w) + ?d * real_of_int (w_consistency w)
     + ?e * real_of_int (w_outliers w)"
  have W: "?W \<noteq> 0" using assms by linarith
  have Wr: "real_of_int ?W = real_of_int (w_completeness w) + real_of_int (w_validity w)
     + real_of_int (w_uniqueness w) + real_of_int (w_consistency w)
     + real_of_int (w_outliers w)"
    by simp
  have pos: "0 < real_of_int (w_completeness w)" "0 < real_of_int (w_validity w)"
    "0 < real_of_int (w_uniqueness w)" "0 < real_of_int (w_consistency w)"
    "0 < real_of_int (w_outliers w)"
    using assms by simp_all
  have rng: "0 \<le> ?num / real_of_int ?W \<and> ?num / real_of_int ?W \<le> 100"
    unfolding Wr
    by (rule weighted_mean_range [OF bounded_range bounded_range bounded_range bounded_range
          bounded_range pos])
  then have tot: "bounded (?num / real_of_int ?W) = ?num / real_of_int ?W"
    by (simp add: bounded_id)
  have key: "on_key \<noteq> [] \<longrightarrow> profile_duplicate_key_pct on_key =
           Some (Max (set (map (\<lambda>p. km_pct (snd p)) on_key)))"
    by (cases on_key) (simp_all add: profile_duplicate_key_pct_def fold_max_is_Max)
  have res: "compute_scores miss_pct inv_pct dup_rows_pct dup_key_pct
           cons_pct outl_pct (Some w) =
        Inr \<lparr>s_completeness = ?a, s_validity = ?b, s_uniqueness = ?c, s_consistency = ?d,
             s_outliers = ?e, s_total = ?num / real_of_int ?W\<rparr>"
    using W tot by (simp add: compute_scores_def Let_def)
  show ?thesis
    unfolding res using key by (simp add: bounded_def)
qed

theorem scores_weighted_mean_witness:
  "\<exists>sc. compute_scores (1 / 2) 0 (1 / 4) (Some (1 / 2)) 0 0
           (Some \<lparr>w_completeness = 1, w_validity = 1, w_uniqueness = 1, w_consistency = 1,
                  w_outliers = 1\<rparr>) = Inr sc
     \<and> s_completeness sc = 50 \<and> s_uniqueness sc = 50 \<and> s_total sc = 80"
proof -
  let ?w = "\<lparr>w_completeness = 1, w_validity = 1, w_uniqueness = 1, w_consistency = 1,
             w_outliers = 1\<rparr>"
  obtain sc where sc: "compute_scores (1 / 2) 0 (1 / 4) (Some (1 / 2)) 0 0 (Some ?w) = Inr sc"
    and parts: "s_completeness sc = max 0 (min 100 (100 * (1 - 1 / 2)))"
      "s_validity sc = max 0 (min 100 (100 * (1 - 0)))"
      "s_uniqueness sc = max 0 (min 100 (100 * (1 - max (1 / 4)
           (case Some (1 / 2) of None \<Rightarrow> 0 | Some k \<Rightarrow> k))))"
      "s_consistency sc = max 0 (min 100 (100 * (1 - 0)))"
      "s_outliers sc = max 0 (min 100 (100 * (1 - 0)))"
    and tot: "s_total sc =
         (s_completeness sc * real_of_int (w_completeness ?w)
          + s_validity sc * real_of_int (w_validity ?w)
          + s_uniqueness sc * real_of_int (w_uniqueness ?w)
          + s_consistency sc * real_of_int (w_consistency ?w)
          + s_outliers sc * real_of_int (w_outliers ?w))
         / real_of_int (w_completeness ?w + w_validity ?w + w_uniqueness ?w
                        + w_consistency ?w + w_outliers ?w)"
    using scores_weighted_mean [of ?w "1 / 2" 0 "1 / 4" "Some (1 / 2)" 0 0 "[]"]
    by auto
  have "s_completeness sc = 50" "s_validity sc = 100" "s_uniqueness sc = 50"
    "s_consistency sc = 100" "s_outliers sc = 100"
    using parts by simp_all
  then show ?thesis using sc tot by simp
qed

section \<open>The tokenizer never returns a token\<close>

lemma tokenize_from_Inr:
  "tokenize_from cs tokens = Inr r \<Longrightarrow> list_all isspace cs \<and> r = tokens"
  by (induction cs tokens rule: tokenize_from.induct)
     (auto simp: lastgroup_def lastindex_def group_name_def split: if_splits option.splits)

lemma tokenize_from_Inl:
  "tokenize_from cs tokens = Inl e \<Longrightarrow> \<exists>msg. e = RulesError msg"
  by (induction cs tokens rule: tokenize_from.induct)
     (auto simp: lastgroup_def lastindex_def group_name_def split: if_splits option.splits)

lemma tokenize_cases:
  "tokenize expr = Inr [] \<and> list_all isspace expr \<or> (\<exists>msg. tokenize expr = Inl (RulesError msg))"
proof (cases "tokenize expr")
  case (Inl e)
  then show ?thesis using tokenize_from_Inl [of expr "[]" e] by (auto simp: tokenize_def)
next
  case (Inr r)
  then show ?thesis using tokenize_from_Inr [of expr "[]" r] by (auto simp: tokenize_def)
qed

lemma parse_Nil: "parse [] = Inl (RulesError ''Unexpected end of expression'')"
  by (simp add: parse_def parse_or.simps parse_and.simps parse_comparison.simps
      parse_term.simps pbind_def)

lemma parse_expression_fails: "\<exists>msg. parse_expression expr = Inl (RulesError msg)"
  using tokenize_cases [of expr] by (auto simp: parse_expression_def parse_Nil)

lemma evaluate_row_rule_fails: "\<exists>msg. evaluate_row_rule L expr df = Inl (RulesError msg)"
  using parse_expression_fails [of expr] by (auto simp: evaluate_row_rule_def)

lemma first_match_group:
  "first_match alts = Some m \<Longrightarrow> (m_group m, Some (m_text m)) \<in> set alts"
  unfolding first_match_def
  by (auto split: list.splits dest!: arg_cong [where f = set] simp: filter_eq_Cons_iff)

lemma number_match_form:
  assumes "number_match cs = Some t"
  shows "\<exists>ds fs. ds \<noteq> [] \<and> list_all is_digit ds \<and> list_all is_digit fs
           \<and> (t = ds \<or> (fs \<noteq> [] \<and> t = ds @ ''.'' @ fs))"
proof -
  let ?ds = "takeWhile is_digit cs"
  have ds: "list_all is_digit ?ds" by (simp add: list_all_iff) (meson set_takeWhileD)
  have fs: "list_all is_digit (takeWhile is_digit r)" for r
    by (simp add: list_all_iff) (meson set_takeWhileD)
  from assms have ne: "?ds \<noteq> []"
    by (auto simp: number_match_def Let_def split: if_splits)
  from assms consider "t = ?ds"
    | r where "takeWhile is_digit r \<noteq> []" "t = ?ds @ ''.'' @ takeWhile is_digit r"
    by (auto simp: number_match_def Let_def split: if_splits list.splits)
  then show ?thesis
  proof cases
    case 1
    then show ?thesis using ne ds by (intro exI [of _ ?ds] exI [of _ "[]"]) simp
  next
    case (2 r)
    then show ?thesis using ne ds fs [of r]
      by (intro exI [of _ ?ds] exI [of _ "takeWhile is_digit r"]) simp
  qed
qed

text \<open>
  C10. No expression that contains the character \<^verbatim>\<open>-\<close> is tokenized: \<^verbatim>\<open>tokenize\<close> raises
  \<^verbatim>\<open>RulesError\<close> on it, as it does on \<^verbatim>\<open>"age >= -1"\<close>. No alternative of the token pattern
  matches at a \<^verbatim>\<open>-\<close>, and the text of a \<^verbatim>\<open>NUMBER\<close> match is a non-empty run of digits,
  optionally followed by a dot and another non-empty run of digits.
\<close>

theorem tokenize_rejects_minus:
  "(CHR ''-'' \<in> set expr \<longrightarrow> (\<exists>msg. tokenize expr = Inl (RulesError msg)))
   \<and> token_regex_match (CHR ''-'' # cs) = None
   \<and> (token_regex_match cs' = Some m \<and> group_name (m_group m) = Some ''NUMBER'' \<longrightarrow>
        (\<exists>ds fs. ds \<noteq> [] \<and> list_all is_digit ds \<and> list_all is_digit fs
           \<and> (m_text m = ds \<or> (fs \<noteq> [] \<and> m_text m = ds @ ''.'' @ fs))))
   \<and> (\<exists>msg. tokenize ''age >= -1'' = Inl (RulesError msg))"
proof (intro conjI impI)
  assume minus: "CHR ''-'' \<in> set expr"
  have "\<not> isspace CHR ''-''" by (simp add: isspace_def)
  with minus have "\<not> list_all isspace expr" by (auto simp: list_all_iff)
  then show "\<exists>msg. tokenize expr = Inl (RulesError msg)"
    using tokenize_cases [of expr] by auto
next
  show "token_regex_match (CHR ''-'' # cs) = None"
    by (simp add: token_regex_match_def first_match_def number_match_def string_match_def
        quoted_match_def op_match_def char_match_def ident_match_def is_digit_def
        is_ident_start_def)
next
  assume a: "token_regex_match cs' = Some m \<and> group_name (m_group m) = Some ''NUMBER''"
  then have g: "m_group m = 2" by (auto simp: group_name_def split: if_splits)
  from a have "first_match
      [(2, number_match cs'), (3, string_match cs'), (4, op_match cs'),
       (5, char_match (CHR ''('') cs'), (6, char_match (CHR '')'') cs'),
       (7, char_match (CHR '','') cs'), (8, ident_match cs')] = Some m"
    by (simp add: token_regex_match_def)
  then have "(m_group m, Some (m_text m)) \<in> set
      [(2, number_match cs'), (3, string_match cs'), (4, op_match cs'),
       (5, char_match (CHR ''('') cs'), (6, char_match (CHR '')'') cs'),
       (7, char_match (CHR '','') cs'), (8, ident_match cs')]"
    by (rule first_match_group)
  with g have "number_match cs' = Some (m_text m)" by auto
  then show "\<exists>ds fs. ds \<noteq> [] \<and> list_all is_digit ds \<and> list_all is_digit fs
           \<and> (m_text m = ds \<or> (fs \<noteq> [] \<and> m_text m = ds @ ''.'' @ fs))"
    by (rule number_match_form)
next
  have "\<not> list_all isspace ''age >= -1''" by (simp add: isspace_def)
  then show "\<exists>msg. tokenize ''age >= -1'' = Inl (RulesError msg)"
    using tokenize_cases [of "''age >= -1''"] by auto
qed

theorem tokenize_rejects_minus_witness:
  "CHR ''-'' \<in> set ''x - 1''
   \<and> (\<exists>msg. tokenize ''x - 1'' = Inl (RulesError msg))
   \<and> token_regex_match ''12.5)'' = Some \<lparr>m_group = 2, m_text = ''12.5''\<rparr>
   \<and> group_name 2 = Some ''NUMBER''
   \<and> (\<exists>ds fs. ds \<noteq> [] \<and> list_all is_digit ds \<and> list_all is_digit fs
         \<and> (''12.5'' = ds \<or> (fs \<noteq> [] \<and> ''12.5'' = ds @ ''.'' @ fs)))"
proof -
  have m: "token_regex_match ''12.5)'' = Some \<lparr>m_group = 2, m_text = ''12.5''\<rparr>"
    by (simp add: token_regex_match_def first_match_def number_match_def is_digit_def)
  have g: "group_name 2 = Some ''NUMBER''" by (simp add: group_name_def)
  show ?thesis
    using tokenize_rejects_minus [of "''x - 1''" "[]" "''12.5)''" "\<lparr>m_group = 2, m_text = ''12.5''\<rparr>"]
      m g by simp
qed

section \<open>Consistency: what a row rule yields\<close>

lemma tokenize_age_rule:
  "tokenize ''age >= 0 and age <= 120'' = Inl (RulesError ''Invalid token in expression'')"
  by (simp add: tokenize_def isspace_def token_regex_match_def first_match_def number_match_def
      string_match_def quoted_match_def op_match_def char_match_def ident_match_def
      is_digit_def is_ident_start_def lastgroup_def lastindex_def group_name_def)

text \<open>
  C5. On a frame with the one row \<^verbatim>\<open>age = null\<close> and the row rule
  \<^verbatim>\<open>"age >= 0 and age <= 120"\<close>, the consistency check reports no invalid row and emits one
  \<^verbatim>\<open>row_rule_error\<close> issue with count 0, not a \<^verbatim>\<open>row_rule_violation\<close>: \<^verbatim>\<open>tokenize\<close> raises on the
  first token of the rule. The tree that the rule denotes, handed to \<^verbatim>\<open>eval_ast\<close> directly,
  evaluates to false on that row, which the check's own counting takes as one invalid row.
\<close>

theorem consistency_age_rule_never_evaluated:
  "compute_consistency L [(''age'', [Null])]
     (Some \<lparr>r_columns = [], r_unique_keys = [],
            r_row_rules = [\<lparr>rr_name = ''age_range'', rr_expr = ''age >= 0 and age <= 120''\<rparr>]\<rparr>)
   = Inr (\<lparr>cons_invalid_count = 0, cons_invalid_pct = 0,
           cons_rules = [(''age_range'', \<lparr>rm_invalid_count = 0, rm_invalid_pct = 0,
                           rm_expr = ''age >= 0 and age <= 120''\<rparr>)]\<rparr>,
          [\<lparr>itype = ''row_rule_error'', icolumns = [], icount = 0,
            iexamples = [Of_text ''Invalid token in expression'']\<rparr>])
   \<and> eval_ast L (And (Cmp ''>='' (Ident ''age'') (Number 0))
                     (Cmp ''<='' (Ident ''age'') (Number 120))) [(''age'', [Null])]
     = Inr (Series [Bool False])
   \<and> invalid_rows L [Bool False] = Inr (1, [0])"
proof (intro conjI)
  show "compute_consistency L [(''age'', [Null])]
     (Some \<lparr>r_columns = [], r_unique_keys = [],
            r_row_rules = [\<lparr>rr_name = ''age_range'', rr_expr = ''age >= 0 and age <= 120''\<rparr>]\<rparr>)
   = Inr (\<lparr>cons_invalid_count = 0, cons_invalid_pct = 0,
           cons_rules = [(''age_range'', \<lparr>rm_invalid_count = 0, rm_invalid_pct = 0,
                           rm_expr = ''age >= 0 and age <= 120''\<rparr>)]\<rparr>,
          [\<lparr>itype = ''row_rule_error'', icolumns = [], icount = 0,
            iexamples = [Of_text ''Invalid token in expression'']\<rparr>])"
    by (simp add: compute_consistency_def consistency_step_def evaluate_row_rule_def
        parse_expression_def tokenize_age_rule rate_int_def)
  show "eval_ast L (And (Cmp ''>='' (Ident ''age'') (Number 0))
                     (Cmp ''<='' (Ident ''age'') (Number 120))) [(''age'', [Null])]
     = Inr (Series [Bool False])"
    by (simp add: df_columns_def df_col_def cmp_ops_def dtype_of_def row_compare_def
        logic_bool_def)
  show "invalid_rows L [Bool False] = Inr (1, [0])"
    by (simp add: invalid_rows_def mask_sum_def index_where_def select_def)
qed

section \<open>Evaluator: comparisons with a missing operand\<close>

lemma numeric_series_cells:
  assumes "dtype_of xs \<noteq> DObject" and "x \<in> set xs"
  shows "x = Null \<or> num_of x \<noteq> None"
proof -
  from assms(1) have "list_all is_bool_cell xs \<or> list_all is_num_or_null xs"
    by (auto simp: dtype_of_def split: if_splits)
  with assms(2) have "is_bool_cell x \<or> is_num_or_null x" by (auto simp: list_all_iff)
  then show ?thesis by (cases x) auto
qed

lemma numeric_scalar_cell: "numeric_operand (Scalar s) \<Longrightarrow> num_of (cell_of_scalar s) \<noteq> None"
  by (cases s) auto

lemma row_compare_numeric:
  assumes "a = Null \<or> num_of a \<noteq> None" and "b = Null \<or> num_of b \<noteq> None"
  shows "\<exists>r. row_compare op a b = Inr r \<and> (a = Null \<or> b = Null \<longrightarrow> r = (op = ''!=''))"
proof (cases "a = Null \<or> b = Null")
  case True
  then show ?thesis by (simp add: row_compare_def)
next
  case False
  with assms obtain x y where "num_of a = Some x" "num_of b = Some y" by auto
  then have "py_compare op a b = Inr (cmp_num op x y)"
    by (cases a; cases b) (simp_all add: py_compare_def)
  with False show ?thesis by (simp add: row_compare_def)
qed

lemma collect_rows:
  assumes "\<forall>i<length rs. \<exists>r. rs ! i = Inr r \<and> (P i \<longrightarrow> r = v)"
  shows "\<exists>m. collect rs = Inr m \<and> length m = length rs \<and> list_all is_bool_cell m
           \<and> (\<forall>i<length rs. P i \<longrightarrow> m ! i = Bool v)"
  using assms
proof (induction rs arbitrary: P)
  case Nil
  then show ?case by simp
next
  case (Cons r rs)
  from Cons.prems [rule_format, of 0] obtain b where r: "r = Inr b" and b: "P 0 \<longrightarrow> b = v"
    by auto
  have "\<forall>i<length rs. \<exists>r. rs ! i = Inr r \<and> (P (Suc i) \<longrightarrow> r = v)"
    using Cons.prems by force
  from Cons.IH [OF this] obtain m where m: "collect rs = Inr m" "length m = length rs"
    "list_all is_bool_cell m" "\<forall>i<length rs. P (Suc i) \<longrightarrow> m ! i = Bool v"
    by blast
  have "\<forall>i<length (r # rs). P i \<longrightarrow> (Bool b # m) ! i = Bool v"
    using b m(4) by (auto simp: nth_Cons split: nat.splits)
  then show ?case using r m by simp
qed

lemma compare_numeric_operands:
  assumes lv: "numeric_operand lv" and rv: "numeric_operand rv"
    and ser: "is_series lv \<or> is_series rv"
  shows "\<exists>m. compare_values L op lv rv = Inr (Series m) \<and> list_all is_bool_cell m
           \<and> (\<forall>i<length m. operand_row lv i = Null \<or> operand_row rv i = Null
                 \<longrightarrow> m ! i = Bool (op = ''!=''))"
proof (cases lv)
  case l: (Series xs)
  show ?thesis
  proof (cases rv)
    case r: (Series ys)
    let ?rs = "map (\<lambda>p. row_compare op (fst p) (snd p)) (zip xs ys)"
    have "\<forall>i<length ?rs. \<exists>b. ?rs ! i = Inr b
            \<and> (xs ! i = Null \<or> ys ! i = Null \<longrightarrow> b = (op = ''!=''))"
    proof (intro allI impI)
      fix i assume i: "i < length ?rs"
      then have "xs ! i \<in> set xs" "ys ! i \<in> set ys" by simp_all
      then have "xs ! i = Null \<or> num_of (xs ! i) \<noteq> None" "ys ! i = Null \<or> num_of (ys ! i) \<noteq> None"
        using lv rv l r by (auto dest: numeric_series_cells [rotated])
      from row_compare_numeric [OF this, of op] i
      show "\<exists>b. ?rs ! i = Inr b \<and> (xs ! i = Null \<or> ys ! i = Null \<longrightarrow> b = (op = ''!=''))"
        by simp
    qed
    from collect_rows [OF this] obtain m where "collect ?rs = Inr m" "length m = length ?rs"
      "list_all is_bool_cell m"
      "\<forall>i<length ?rs. xs ! i = Null \<or> ys ! i = Null \<longrightarrow> m ! i = Bool (op = ''!='')"
      by blast
    then show ?thesis using l r lv rv by simp
  next
    case r: (Scalar b)
    let ?rs = "map (\<lambda>x. row_compare op x (cell_of_scalar b)) xs"
    have nb: "num_of (cell_of_scalar b) \<noteq> None" using rv r by (simp add: numeric_scalar_cell)
    have "\<forall>i<length ?rs. \<exists>c. ?rs ! i = Inr c
            \<and> (xs ! i = Null \<or> cell_of_scalar b = Null \<longrightarrow> c = (op = ''!=''))"
    proof (intro allI impI)
      fix i assume i: "i < length ?rs"
      then have "xs ! i \<in> set xs" by simp
      then have "xs ! i = Null \<or> num_of (xs ! i) \<noteq> None"
        using lv l by (auto dest: numeric_series_cells [rotated])
      from row_compare_numeric [OF this, of "cell_of_scalar b" op] nb i
      show "\<exists>c. ?rs ! i = Inr c \<and> (xs ! i = Null \<or> cell_of_scalar b = Null \<longrightarrow> c = (op = ''!=''))"
        by simp
    qed
    from collect_rows [OF this] obtain m where "collect ?rs = Inr m" "length m = length ?rs"
      "list_all is_bool_cell m"
      "\<forall>i<length ?rs. xs ! i = Null \<or> cell_of_scalar b = Null \<longrightarrow> m ! i = Bool (op = ''!='')"
      by blast
    then show ?thesis using l r lv rv by simp
  qed
next
  case l: (Scalar a)
  with ser obtain ys where r: "rv = Series ys" by (cases rv) auto
  let ?rs = "map (\<lambda>y. row_compare op (cell_of_scalar a) y) ys"
  have na: "num_of (cell_of_scalar a) \<noteq> None" using lv l by (simp add: numeric_scalar_cell)
  have "\<forall>i<length ?rs. \<exists>c. ?rs ! i = Inr c
          \<and> (cell_of_scalar a = Null \<or> ys ! i = Null \<longrightarrow> c = (op = ''!=''))"
  proof (intro allI impI)
    fix i assume i: "i < length ?rs"
    then have "ys ! i \<in> set ys" by simp
    then have y: "ys ! i = Null \<or> num_of (ys ! i) \<noteq> None"
      using rv r by (auto dest: numeric_series_cells [rotated])
    have a: "cell_of_scalar a = Null \<or> num_of (cell_of_scalar a) \<noteq> None" using na by simp
    from row_compare_numeric [OF a y, of op] i
    show "\<exists>c. ?rs ! i = Inr c \<and> (cell_of_scalar a = Null \<or> ys ! i = Null \<longrightarrow> c = (op = ''!=''))"
      by simp
  qed
  from collect_rows [OF this] obtain m where "collect ?rs = Inr m" "length m = length ?rs"
    "list_all is_bool_cell m"
    "\<forall>i<length ?rs. cell_of_scalar a = Null \<or> ys ! i = Null \<longrightarrow> m ! i = Bool (op = ''!='')"
    by blast
  then show ?thesis using l r lv rv by simp
qed

lemma logic_bool_series:
  assumes "list_all is_bool_cell xs" and "list_all is_bool_cell ys"
  shows "logic_values L op (Series xs) (Series ys) =
           Inr (Series (map (\<lambda>p. Bool (logic_bool op (the_bool (fst p)) (the_bool (snd p))))
                  (zip xs ys)))"
  using assms by simp

text \<open>
  C4, as the code has it. On columns of numeric or boolean dtype and number literals,
  a comparison node (\<^verbatim>\<open><\<close>, \<^verbatim>\<open><=\<close>, \<^verbatim>\<open>>\<close>, \<^verbatim>\<open>>=\<close>, \<^verbatim>\<open>==\<close>, \<^verbatim>\<open>!=\<close>) evaluates to a boolean column:
  in a row where an operand is missing the result is false, and true under \<^verbatim>\<open>!=\<close>; no
  row of the result is missing. An and/or node over two boolean columns is the row-wise
  Boolean and/or, so it has no missing row either: the evaluator is two-valued there.
\<close>

theorem comparison_with_null_is_boolean:
  "(op \<in> set cmp_ops \<and> eval_ast L left df = Inr lv \<and> eval_ast L right df = Inr rv
      \<and> numeric_operand lv \<and> numeric_operand rv \<and> (is_series lv \<or> is_series rv) \<longrightarrow>
      (\<exists>m. eval_ast L (Cmp op left right) df = Inr (Series m) \<and> list_all is_bool_cell m
         \<and> (\<forall>i<length m. operand_row lv i = Null \<or> operand_row rv i = Null
               \<longrightarrow> m ! i = Bool (op = ''!=''))))
   \<and> (eval_ast L a df = Inr (Series xs) \<and> eval_ast L b df = Inr (Series ys)
        \<and> list_all is_bool_cell xs \<and> list_all is_bool_cell ys \<longrightarrow>
        eval_ast L (And a b) df =
          Inr (Series (map (\<lambda>p. Bool (the_bool (fst p) \<and> the_bool (snd p))) (zip xs ys)))
        \<and> eval_ast L (Or a b) df =
          Inr (Series (map (\<lambda>p. Bool (the_bool (fst p) \<or> the_bool (snd p))) (zip xs ys))))"
proof (intro conjI impI)
  assume h: "op \<in> set cmp_ops \<and> eval_ast L left df = Inr lv \<and> eval_ast L right df = Inr rv
      \<and> numeric_operand lv \<and> numeric_operand rv \<and> (is_series lv \<or> is_series rv)"
  then have "eval_ast L (Cmp op left right) df = compare_values L op lv rv" by simp
  moreover from h have "\<exists>m. compare_values L op lv rv = Inr (Series m) \<and> list_all is_bool_cell m
           \<and> (\<forall>i<length m. operand_row lv i = Null \<or> operand_row rv i = Null
                 \<longrightarrow> m ! i = Bool (op = ''!=''))"
    by (intro compare_numeric_operands) auto
  ultimately show "\<exists>m. eval_ast L (Cmp op left right) df = Inr (Series m) \<and> list_all is_bool_cell m
         \<and> (\<forall>i<length m. operand_row lv i = Null \<or> operand_row rv i = Null
               \<longrightarrow> m ! i = Bool (op = ''!=''))"
    by simp
next
  assume h: "eval_ast L a df = Inr (Series xs) \<and> eval_ast L b df = Inr (Series ys)
        \<and> list_all is_bool_cell xs \<and> list_all is_bool_cell ys"
  then show "eval_ast L (And a b) df =
          Inr (Series (map (\<lambda>p. Bool (the_bool (fst p) \<and> the_bool (snd p))) (zip xs ys)))"
    by (simp add: logic_bool_def)
  from h show "eval_ast L (Or a b) df =
          Inr (Series (map (\<lambda>p. Bool (the_bool (fst p) \<or> the_bool (snd p))) (zip xs ys)))"
    by (simp add: logic_bool_def)
qed

theorem comparison_with_null_is_boolean_witness:
  "''>='' \<in> set cmp_ops
   \<and> eval_ast sample_lib (Ident ''age'') [(''age'', [Null, Num 5])] = Inr (Series [Null, Num 5])
   \<and> eval_ast sample_lib (Number 0) [(''age'', [Null, Num 5])] = Inr (Scalar (SFloat 0))
   \<and> numeric_operand (Series [Null, Num 5]) \<and> numeric_operand (Scalar (SFloat 0))
   \<and> eval_ast sample_lib (Cmp ''>='' (Ident ''age'') (Number 0)) [(''age'', [Null, Num 5])]
       = Inr (Series [Bool False, Bool True])
   \<and> list_all is_bool_cell [Bool False, Bool True]
   \<and> eval_ast sample_lib (Or (Cmp ''>='' (Ident ''age'') (Number 0))
                             (Cmp ''>='' (Ident ''age'') (Number 0))) [(''age'', [Null, Num 5])]
       = Inr (Series [Bool False, Bool True])"
proof -
  let ?df = "[(''age'', [Null, Num 5])]"
  let ?c = "Cmp ''>='' (Ident ''age'') (Number 0)"
  have op: "''>='' \<in> set cmp_ops" by (simp add: cmp_ops_def)
  have l: "eval_ast sample_lib (Ident ''age'') ?df = Inr (Series [Null, Num 5])"
    by (simp add: df_columns_def df_col_def)
  have r: "eval_ast sample_lib (Number 0) ?df = Inr (Scalar (SFloat 0))" by simp
  have nl: "numeric_operand (Series [Null, Num 5])" by (simp add: dtype_of_def)
  have nr: "numeric_operand (Scalar (SFloat 0))" by simp
  have c: "eval_ast sample_lib ?c ?df = Inr (Series [Bool False, Bool True])"
    by (simp add: df_columns_def df_col_def cmp_ops_def dtype_of_def row_compare_def
        py_compare_def cmp_num_def)
  have b: "list_all is_bool_cell [Bool False, Bool True]" by simp
  from comparison_with_null_is_boolean
    [of "''>=''" sample_lib "Ident ''age''" ?df "Series [Null, Num 5]" "Number 0"
      "Scalar (SFloat 0)" ?c "[Bool False, Bool True]" ?c "[Bool False, Bool True]"]
  have "eval_ast sample_lib (Or ?c ?c) ?df = Inr (Series [Bool False, Bool True])"
    using op l r nl nr c b by simp
  then show ?thesis using op l r nl nr c b by simp
qed

theorem eval_null_comparison_counterexample:
  "eval_ast sample_lib (Cmp ''>='' (Ident ''age'') (Number 0)) [(''age'', [Null, Num 5])]
     = Inr (Series [Bool False, Bool True])
   \<and> eval_ast sample_lib (Cmp ''!='' (Ident ''age'') (Number 0)) [(''age'', [Null, Num 5])]
     = Inr (Series [Bool True, Bool True])
   \<and> eval_ast sample_lib (Or (Cmp ''>='' (Ident ''age'') (Number 0))
                           (Cmp ''!='' (Ident ''age'') (Number 0))) [(''age'', [Null, Num 5])]
     = Inr (Series [Bool True, Bool True])"
  by (simp add: df_columns_def df_col_def cmp_ops_def dtype_of_def row_compare_def
      py_compare_def cmp_num_def logic_bool_def)

section \<open>Rates and issue counts of the checks\<close>

lemma rate_range: "cnt \<le> tot \<Longrightarrow> 0 \<le> rate cnt tot \<and> rate cnt tot \<le> 1"
  by (simp add: rate_def)

lemma alist_update_set:
  "p \<in> set (AList.update k v al) \<Longrightarrow> p = (k, v) \<or> p \<in> set al"
  by (induction al) (auto split: if_splits)

lemma sum_list_bounded:
  fixes f :: "'a \<Rightarrow> nat"
  shows "(\<And>x. x \<in> set xs \<Longrightarrow> f x \<le> k) \<Longrightarrow> sum_list (map f xs) \<le> k * length xs"
  by (induction xs) (auto simp: add_mono)

lemma mask_sum_pos: "list_ex id m \<Longrightarrow> 0 < mask_sum m"
  by (auto simp: mask_sum_def list_ex_iff filter_empty_conv)

lemma wf_df_col_length:
  assumes "wf_df df" and "c \<in> set (df_columns df)"
  shows "length (df_col df c) = df_len df"
proof -
  from assms(2) obtain xs where m: "(c, xs) \<in> set df" by (auto simp: df_columns_def)
  with assms(1) have "df_col df c = xs" by (auto simp: wf_df_def intro: df_col_member)
  moreover from assms(1) m have "length xs = df_len df" by (auto simp: wf_df_def list_all_iff)
  ultimately show ?thesis by simp
qed

subsection \<open>Completeness\<close>

lemma completeness_rates:
  assumes "wf_df df"
  shows "0 \<le> missing_pct (cm_global (fst (compute_completeness df)))
       \<and> missing_pct (cm_global (fst (compute_completeness df))) \<le> 1
       \<and> (\<forall>p \<in> set (cm_columns (fst (compute_completeness df))).
            0 \<le> missing_pct (snd p) \<and> missing_pct (snd p) \<le> 1)"
proof -
  from assms have d: "distinct (map fst df)" by (simp add: wf_df_def)
  have len: "\<And>p. p \<in> set df \<Longrightarrow> length (snd p) = df_len df"
    using assms by (auto simp: wf_df_def list_all_iff)
  have "sum_list (map (\<lambda>p. mask_sum (map isna (snd p))) df) \<le> df_len df * length df"
  proof (rule sum_list_bounded)
    fix p assume "p \<in> set df"
    then have "length (map isna (snd p)) = df_len df" using len by simp
    then show "mask_sum (map isna (snd p)) \<le> df_len df"
      using mask_sum_le [of "map isna (snd p)"] by simp
  qed
  then have g: "0 \<le> missing_pct (cm_global (fst (compute_completeness df)))
       \<and> missing_pct (cm_global (fst (compute_completeness df))) \<le> 1"
    using rate_range by (simp add: compute_completeness_def Let_def df_columns_def)
  have cols: "cm_columns (fst (compute_completeness df)) =
        map (\<lambda>c. (c, \<lparr>missing_count = mask_sum (map isna (df_col df c)),
                       missing_pct = rate (mask_sum (map isna (df_col df c))) (df_len df)\<rparr>))
            (map fst df)"
    using completeness_fold_columns [of "[]" "map fst df" df "[]"] d
    by (simp add: compute_completeness_def Let_def df_columns_def)
  have "0 \<le> rate (mask_sum (map isna (df_col df c))) (df_len df)
      \<and> rate (mask_sum (map isna (df_col df c))) (df_len df) \<le> 1" if "c \<in> set (map fst df)" for c
  proof (rule rate_range)
    have "length (df_col df c) = df_len df"
      using that assms by (intro wf_df_col_length) (simp_all add: df_columns_def)
    then show "mask_sum (map isna (df_col df c)) \<le> df_len df"
      using mask_sum_le [of "map isna (df_col df c)"] by simp
  qed
  then show ?thesis using g unfolding cols by auto
qed

lemma completeness_step_issues:
  assumes "\<forall>i \<in> set (snd st). P i"
    and "\<And>col n ex. 0 < n \<Longrightarrow>
           P \<lparr>itype = ''missing_values'', icolumns = [col], icount = int n, iexamples = ex\<rparr>"
  shows "\<forall>i \<in> set (snd (completeness_step df col st)). P i"
  using assms by (auto simp: completeness_step_def Let_def)

lemma completeness_fold_issues:
  assumes "\<forall>i \<in> set (snd st). P i"
    and "\<And>col n ex. 0 < n \<Longrightarrow>
           P \<lparr>itype = ''missing_values'', icolumns = [col], icount = int n, iexamples = ex\<rparr>"
  shows "\<forall>i \<in> set (snd (fold (completeness_step df) cols st)). P i"
  using assms(1)
proof (induction cols arbitrary: st)
  case Nil
  then show ?case by simp
next
  case (Cons c cols)
  have "\<forall>i \<in> set (snd (completeness_step df c st)). P i"
    by (rule completeness_step_issues [OF Cons.prems assms(2)])
  from Cons.IH [OF this] show ?case by simp
qed

lemma completeness_issues:
  assumes "\<And>col n ex. 0 < n \<Longrightarrow>
           P \<lparr>itype = ''missing_values'', icolumns = [col], icount = int n, iexamples = ex\<rparr>"
  shows "\<forall>i \<in> set (snd (compute_completeness df)). P i"
  using completeness_fold_issues [of "([], [])" P "df" "df_columns df"] assms
  by (simp add: compute_completeness_def Let_def)

subsection \<open>Uniqueness\<close>

lemma duplicated_count_le: "mask_sum (duplicated rows) \<le> length rows"
  using mask_sum_le [of "duplicated rows"] by (simp add: duplicated_def duplicated_from_length)

lemma df_rows_length: "length (df_rows df) = df_len df"
  by (simp add: df_rows_def)

lemma df_subset_len:
  assumes "wf_df df"
  shows "df_len (df_subset df key_cols) \<le> df_len df"
proof (cases "df_subset df key_cols")
  case Nil
  then show ?thesis by (simp add: df_len_def)
next
  case (Cons p rest)
  then have "p \<in> set df" by (metis df_subset_def filter_is_subset list.set_intros(1) subsetD)
  with assms have "length (snd p) = df_len df" by (auto simp: wf_df_def list_all_iff)
  with Cons show ?thesis by (cases p) (simp add: df_len_def)
qed

lemma handle_key_rates:
  assumes "wf_df df" and "key_ok (fst st)"
  shows "key_ok (fst (handle_key df key_cols label st))"
proof -
  have "mask_sum (duplicated (df_rows (df_subset df key_cols))) \<le> df_len df"
    using duplicated_count_le [of "df_rows (df_subset df key_cols)"] df_subset_len [OF assms(1)]
    by (simp add: df_rows_length) (meson le_trans)
  then have "0 \<le> rate (mask_sum (duplicated (df_rows (df_subset df key_cols)))) (df_len df)
     \<and> rate (mask_sum (duplicated (df_rows (df_subset df key_cols)))) (df_len df) \<le> 1"
    by (rule rate_range)
  then show ?thesis
    using assms(2) by (auto simp: handle_key_def Let_def key_ok_def dest!: alist_update_set)
qed

lemma handle_unique_keys_rates:
  assumes "wf_df df" and "key_ok (fst st)"
  shows "key_ok (fst (handle_unique_keys df idx keys st))"
  using assms(2)
proof (induction keys arbitrary: idx st)
  case Nil
  then show ?case by simp
next
  case (Cons k keys)
  have "key_ok (fst (handle_key df k (''unique_key_'' @ str_nat idx) st))"
    by (rule handle_key_rates [OF assms(1) Cons.prems])
  from Cons.IH [OF this] show ?case by simp
qed

lemma uniqueness_rates:
  assumes "wf_df df"
  shows "0 \<le> duplicate_rows_pct (fst (compute_uniqueness df id_cols unique_keys))
       \<and> duplicate_rows_pct (fst (compute_uniqueness df id_cols unique_keys)) \<le> 1
       \<and> (\<forall>p \<in> set (duplicates_on_key (fst (compute_uniqueness df id_cols unique_keys))).
            0 \<le> km_pct (snd p) \<and> km_pct (snd p) \<le> 1)"
proof -
  have "mask_sum (duplicated (df_rows df)) \<le> df_len df"
    using duplicated_count_le [of "df_rows df"] by (simp add: df_rows_length)
  then have r: "0 \<le> rate (mask_sum (duplicated (df_rows df))) (df_len df)
     \<and> rate (mask_sum (duplicated (df_rows df))) (df_len df) \<le> 1"
    by (rule rate_range)
  let ?iss0 = "if mask_sum (duplicated (df_rows df)) \<noteq> 0
            then [\<lparr>itype = ''duplicate_rows'', icolumns = [],
                   icount = int (mask_sum (duplicated (df_rows df))),
                   iexamples = rows_to_examples (map Of_row (index_where (duplicated (df_rows df))))\<rparr>]
            else []"
  let ?st1 = "case id_cols of
                None \<Rightarrow> ([], ?iss0)
              | Some cols \<Rightarrow> if cols \<noteq> [] then handle_key df cols ''id_cols'' ([], ?iss0)
                             else ([], ?iss0)"
  let ?st2 = "case unique_keys of None \<Rightarrow> ?st1 | Some keys \<Rightarrow> handle_unique_keys df 1 keys ?st1"
  have k0: "key_ok (fst (([] :: (string \<times> key_metric) list), ?iss0))" by (simp add: key_ok_def)
  have k1: "key_ok (fst ?st1)"
  proof (cases id_cols)
    case None
    then show ?thesis using k0 by simp
  next
    case (Some cols)
    then show ?thesis using k0 handle_key_rates [OF assms k0, of cols "''id_cols''"] by simp
  qed
  have k2: "key_ok (fst ?st2)"
  proof (cases unique_keys)
    case None
    then show ?thesis using k1 by simp
  next
    case (Some keys)
    then show ?thesis using handle_unique_keys_rates [OF assms k1, of 1 keys] by simp
  qed
  have eq: "duplicates_on_key (fst (compute_uniqueness df id_cols unique_keys)) = fst ?st2"
    unfolding compute_uniqueness_def Let_def by simp
  show ?thesis
    using r k2 unfolding eq by (simp add: compute_uniqueness_def Let_def key_ok_def)
qed

lemma handle_key_issues:
  assumes "\<forall>i \<in> set (snd st). P i"
    and "\<And>cols. cols \<noteq> [] \<Longrightarrow>
           P \<lparr>itype = ''missing_columns'', icolumns = cols, icount = int (length cols),
              iexamples = []\<rparr>"
    and "\<And>cols n ex. 0 < n \<Longrightarrow>
           P \<lparr>itype = ''duplicate_key'', icolumns = cols, icount = int n, iexamples = ex\<rparr>"
  shows "\<forall>i \<in> set (snd (handle_key df key_cols label st)). P i"
  using assms by (auto simp: handle_key_def Let_def)

lemma handle_unique_keys_issues:
  assumes "\<forall>i \<in> set (snd st). P i"
    and "\<And>cols. cols \<noteq> [] \<Longrightarrow>
           P \<lparr>itype = ''missing_columns'', icolumns = cols, icount = int (length cols),
              iexamples = []\<rparr>"
    and "\<And>cols n ex. 0 < n \<Longrightarrow>
           P \<lparr>itype = ''duplicate_key'', icolumns = cols, icount = int n, iexamples = ex\<rparr>"
  shows "\<forall>i \<in> set (snd (handle_unique_keys df idx keys st)). P i"
  using assms(1)
proof (induction keys arbitrary: idx st)
  case Nil
  then show ?case by simp
next
  case (Cons k keys)
  have "\<forall>i \<in> set (snd (handle_key df k (''unique_key_'' @ str_nat idx) st)). P i"
    by (rule handle_key_issues [OF Cons.prems assms(2,3)])
  from Cons.IH [OF this] show ?case by simp
qed

lemma uniqueness_issues:
  assumes "\<And>n ex. 0 < n \<Longrightarrow>
           P \<lparr>itype = ''duplicate_rows'', icolumns = [], icount = int n, iexamples = ex\<rparr>"
    and "\<And>cols. cols \<noteq> [] \<Longrightarrow>
           P \<lparr>itype = ''missing_columns'', icolumns = cols, icount = int (length cols),
              iexamples = []\<rparr>"
    and "\<And>cols n ex. 0 < n \<Longrightarrow>
           P \<lparr>itype = ''duplicate_key'', icolumns = cols, icount = int n, iexamples = ex\<rparr>"
  shows "\<forall>i \<in> set (snd (compute_uniqueness df id_cols unique_keys)). P i"
proof -
  let ?iss0 = "if mask_sum (duplicated (df_rows df)) \<noteq> 0
            then [\<lparr>itype = ''duplicate_rows'', icolumns = [],
                   icount = int (mask_sum (duplicated (df_rows df))),
                   iexamples = rows_to_examples (map Of_row (index_where (duplicated (df_rows df))))\<rparr>]
            else []"
  let ?st1 = "case id_cols of
                None \<Rightarrow> ([], ?iss0)
              | Some cols \<Rightarrow> if cols \<noteq> [] then handle_key df cols ''id_cols'' ([], ?iss0)
                             else ([], ?iss0)"
  let ?st2 = "case unique_keys of None \<Rightarrow> ?st1 | Some keys \<Rightarrow> handle_unique_keys df 1 keys ?st1"
  have i0: "\<forall>i \<in> set (snd (([] :: (string \<times> key_metric) list), ?iss0)). P i"
    using assms(1) by auto
  have i1: "\<forall>i \<in> set (snd ?st1). P i"
  proof (cases id_cols)
    case None
    then show ?thesis using i0 by simp
  next
    case (Some cols)
    then show ?thesis
      using i0 handle_key_issues [OF i0 assms(2,3), of df cols "''id_cols''"] by simp
  qed
  have i2: "\<forall>i \<in> set (snd ?st2). P i"
  proof (cases unique_keys)
    case None
    then show ?thesis using i1 by simp
  next
    case (Some keys)
    then show ?thesis using handle_unique_keys_issues [OF i1 assms(2,3), of df 1 keys] by simp
  qed
  have eq: "snd (compute_uniqueness df id_cols unique_keys) = snd ?st2"
    unfolding compute_uniqueness_def Let_def by simp
  show ?thesis using i2 unfolding eq .
qed

subsection \<open>Outliers\<close>

lemma outlier_count_le:
  "mask_sum (outlier_mask xs lower upper) \<le> length (notna_values xs)"
proof (induction xs)
  case Nil
  then show ?case by (simp add: outlier_mask_def mask_sum_def notna_values_def)
next
  case (Cons x xs)
  then show ?case
    by (cases x) (auto simp: outlier_mask_def mask_sum_def notna_values_def)
qed

lemma outliers_step_ok: "outliers_ok st \<Longrightarrow> outliers_ok (outliers_step L df col st)"
  using outlier_count_le [of "map num_value (df_col df col)"
      "fst (fence L (notna_values (map num_value (df_col df col))))"
      "snd (fence L (notna_values (map num_value (df_col df col))))"]
    rate_range [OF outlier_count_le [of "map num_value (df_col df col)"
      "fst (fence L (notna_values (map num_value (df_col df col))))"
      "snd (fence L (notna_values (map num_value (df_col df col))))"]]
  by (auto simp: outliers_step_def outliers_ok_def Let_def add_mono dest!: alist_update_set)

lemma outliers_fold_ok: "outliers_ok st \<Longrightarrow> outliers_ok (fold (outliers_step L df) cols st)"
  by (induction cols arbitrary: st) (auto intro: outliers_step_ok)

lemma outliers_rates:
  "0 \<le> outlier_pct (om_global (fst (compute_outliers L df)))
   \<and> outlier_pct (om_global (fst (compute_outliers L df))) \<le> 1
   \<and> (\<forall>p \<in> set (om_columns (fst (compute_outliers L df))).
        0 \<le> outlier_pct (snd p) \<and> outlier_pct (snd p) \<le> 1)"
proof -
  let ?st = "fold (outliers_step L df) (df_columns df)
      \<lparr>os_columns = [], os_issues = [], os_total_numeric = 0, os_total_outliers = 0\<rparr>"
  have "outliers_ok ?st" by (rule outliers_fold_ok) (simp add: outliers_ok_def)
  then show ?thesis
    using rate_range [of "os_total_outliers ?st" "os_total_numeric ?st"]
    by (simp add: compute_outliers_def Let_def outliers_ok_def)
qed

lemma outliers_step_issues:
  assumes "\<forall>i \<in> set (os_issues st). P i"
    and "\<And>col n ex. 0 < n \<Longrightarrow>
           P \<lparr>itype = ''outliers'', icolumns = [col], icount = int n, iexamples = ex\<rparr>"
  shows "\<forall>i \<in> set (os_issues (outliers_step L df col st)). P i"
  using assms by (auto simp: outliers_step_def Let_def)

lemma outliers_issues:
  assumes "\<And>col n ex. 0 < n \<Longrightarrow>
           P \<lparr>itype = ''outliers'', icolumns = [col], icount = int n, iexamples = ex\<rparr>"
  shows "\<forall>i \<in> set (snd (compute_outliers L df)). P i"
proof -
  have "\<forall>i \<in> set (os_issues st). P i \<Longrightarrow>
        \<forall>i \<in> set (os_issues (fold (outliers_step L df) cols st)). P i" for cols st
  proof (induction cols arbitrary: st)
    case Nil
    then show ?case by simp
  next
    case (Cons c cols)
    have "\<forall>i \<in> set (os_issues (outliers_step L df c st)). P i"
      by (rule outliers_step_issues [OF Cons.prems assms])
    from Cons.IH [OF this] show ?case by simp
  qed
  from this [of "\<lparr>os_columns = [], os_issues = [], os_total_numeric = 0, os_total_outliers = 0\<rparr>"
      "df_columns df"]
  show ?thesis by (simp add: compute_outliers_def Let_def)
qed

subsection \<open>Validity\<close>

lemma mask_or_length: "length (mask_or a b) \<le> length a"
  by (simp add: mask_or_def)

lemma add_check_length:
  "length (fst st) \<le> n \<Longrightarrow> length (fst (add_check m kind col vals st)) \<le> n"
  using mask_or_length [of "fst st" m] by (auto simp: add_check_def)

lemma add_check_issues:
  assumes "\<forall>i \<in> set (snd st). P i"
    and "\<And>k. 0 < k \<Longrightarrow> P \<lparr>itype = kind, icolumns = [col], icount = int k,
                               iexamples = rows_to_examples vals\<rparr>"
  shows "\<forall>i \<in> set (snd (add_check m kind col vals st)). P i"
  using assms mask_sum_pos [of m] by (auto simp: add_check_def)

lemma column_checks_result:
  assumes "column_checks L col xs cr st0 = Inr res"
    and "length (fst st0) \<le> n"
    and "\<forall>i \<in> set (snd st0). P i"
    and "\<And>kind k ex. kind \<in> set validity_kinds \<Longrightarrow> 0 < k \<Longrightarrow>
           P \<lparr>itype = kind, icolumns = [col], icount = int k, iexamples = ex\<rparr>"
  shows "length (fst res) \<le> n \<and> (\<forall>i \<in> set (snd res). P i)"
proof -
  define st1 where "st1 = (if cr_required cr
                 then add_check (map isna xs) ''required_missing'' col
                        (map Of_cell (select xs (map isna xs))) st0
                 else st0)"
  define st2 where "st2 = (if truthy (cr_type cr)
                 then add_check (invalid_by_type L xs (the (cr_type cr))) ''type_mismatch'' col
                        (map Of_cell (select xs (invalid_by_type L xs (the (cr_type cr))))) st1
                 else st1)"
  define st3 where "st3 = (case cr_min cr of
                   None \<Rightarrow> st2
                 | Some lo \<Rightarrow>
                     (let too_low = map (\<lambda>c. case to_numeric L c of None \<Rightarrow> False
                                               | Some x \<Rightarrow> x < lo) xs
                      in add_check too_low ''below_min'' col (map Of_cell (select xs too_low)) st2))"
  define st4 where "st4 = (case cr_max cr of
                   None \<Rightarrow> st3
                 | Some hi \<Rightarrow>
                     (let too_high = map (\<lambda>c. case to_numeric L c of None \<Rightarrow> False
                                                | Some x \<Rightarrow> x > hi) xs
                      in add_check too_high ''above_max'' col (map Of_cell (select xs too_high)) st3))"
  define r5 where "r5 = (if truthy (cr_regex cr)
               then (case re_compile L (the (cr_regex cr)) of
                       None \<Rightarrow> Inl PatternError
                     | Some matches \<Rightarrow>
                         (let mismatch = map (\<lambda>c. \<not> isna c \<and> \<not> matches (astype_str L c)) xs
                          in Inr (add_check mismatch ''regex_mismatch'' col
                                    (map (\<lambda>c. Of_text (astype_str L c)) (select xs mismatch)) st4)))
               else Inr st4)"
  let ?Q = "\<lambda>st. length (fst st) \<le> n \<and> (\<forall>i \<in> set (snd st). P i)"
  have step: "?Q (add_check m kind col vals st)" if "?Q st" "kind \<in> set validity_kinds"
    for m kind vals st
    using that add_check_length [of st n m kind col vals]
      add_check_issues [of st P kind col vals m] assms(4) by blast
  have kinds: "''required_missing'' \<in> set validity_kinds" "''type_mismatch'' \<in> set validity_kinds"
    "''below_min'' \<in> set validity_kinds" "''above_max'' \<in> set validity_kinds"
    "''regex_mismatch'' \<in> set validity_kinds" "''not_allowed'' \<in> set validity_kinds"
    "''date_in_future'' \<in> set validity_kinds"
    by (simp_all add: validity_kinds_def)
  have q0: "?Q st0" using assms(2,3) by simp
  have q1: "?Q st1"
    unfolding st1_def by (cases "cr_required cr") (use q0 step [OF q0 kinds(1)] in simp_all)
  have q2: "?Q st2"
    unfolding st2_def by (cases "truthy (cr_type cr)") (use q1 step [OF q1 kinds(2)] in simp_all)
  have q3: "?Q st3"
    unfolding st3_def Let_def by (cases "cr_min cr") (use q2 step [OF q2 kinds(3)] in simp_all)
  have q4: "?Q st4"
    unfolding st4_def Let_def by (cases "cr_max cr") (use q3 step [OF q3 kinds(4)] in simp_all)
  have q5: "?Q st5" if "r5 = Inr st5" for st5
  proof (cases "truthy (cr_regex cr)")
    case False
    with that have "st5 = st4" by (simp add: r5_def)
    then show ?thesis using q4 by simp
  next
    case True
    with that obtain matches where
      "st5 = add_check (map (\<lambda>c. \<not> isna c \<and> \<not> matches (astype_str L c)) xs) ''regex_mismatch'' col
               (map (\<lambda>c. Of_text (astype_str L c))
                  (select xs (map (\<lambda>c. \<not> isna c \<and> \<not> matches (astype_str L c)) xs))) st4"
      by (auto simp: r5_def Let_def split: option.splits)
    then show ?thesis using step [OF q4 kinds(5)] by simp
  qed
  have res: "column_checks L col xs cr st0 =
      (case r5 of Inl e \<Rightarrow> Inl e
       | Inr st5 \<Rightarrow>
           (let st6 = (if truthy (cr_allowed cr)
                       then (let mismatch = map (\<lambda>c. \<not> isna c \<and> \<not> isin L c (the (cr_allowed cr))) xs
                             in add_check mismatch ''not_allowed'' col
                                  (map Of_cell (select xs mismatch)) st5)
                       else st5);
                st7 = (if cr_not_future cr
                       then (let future = map (is_future L col) xs
                             in add_check future ''date_in_future'' col
                                  (map Of_cell (select xs future)) st6)
                       else st6)
            in Inr st7))"
    unfolding column_checks_def Let_def st1_def st2_def st3_def st4_def r5_def ..
  from assms(1) obtain st5 where r5: "r5 = Inr st5" unfolding res by (cases r5) auto
  define st6 where "st6 = (if truthy (cr_allowed cr)
                       then add_check (map (\<lambda>c. \<not> isna c \<and> \<not> isin L c (the (cr_allowed cr))) xs)
                              ''not_allowed'' col
                              (map Of_cell (select xs
                                 (map (\<lambda>c. \<not> isna c \<and> \<not> isin L c (the (cr_allowed cr))) xs))) st5
                       else st5)"
  have q6: "?Q st6"
    unfolding st6_def
    by (cases "truthy (cr_allowed cr)") (use q5 [OF r5] step [OF q5 [OF r5] kinds(6)] in simp_all)
  have "res = (if cr_not_future cr
                       then add_check (map (is_future L col) xs) ''date_in_future'' col
                              (map Of_cell (select xs (map (is_future L col) xs))) st6
                       else st6)"
    using assms(1) unfolding res r5 st6_def by (auto simp: Let_def)
  then show ?thesis
    by (cases "cr_not_future cr") (use q6 step [OF q6 kinds(7)] in simp_all)
qed

lemma validity_step_result:
  assumes "validity_step L df rules_opt inferred col st = Inr st'"
    and "validity_ok (df_len df) k st"
    and "\<forall>i \<in> set (vs_issues st). P i"
    and "\<And>kind c j ex. kind \<in> set validity_kinds \<Longrightarrow> 0 < j \<Longrightarrow>
           P \<lparr>itype = kind, icolumns = [c], icount = int j, iexamples = ex\<rparr>"
  shows "validity_ok (df_len df) (Suc k) st' \<and> (\<forall>i \<in> set (vs_issues st'). P i)"
proof -
  let ?st0 = "(replicate (df_len df) False, vs_issues st)"
  let ?r = "case (case rules_opt of None \<Rightarrow> None | Some rs \<Rightarrow> map_of (r_columns rs) col) of
              None \<Rightarrow> Inr ?st0
            | Some cr \<Rightarrow> column_checks L col (df_col df col) cr ?st0"
  from assms(1) obtain res where r: "?r = Inr res"
    unfolding validity_step_def Let_def by (cases ?r) auto
  have q: "length (fst res) \<le> df_len df \<and> (\<forall>i \<in> set (snd res). P i)"
  proof (cases "case rules_opt of None \<Rightarrow> None | Some rs \<Rightarrow> map_of (r_columns rs) col")
    case None
    with r have "res = ?st0" by simp
    then show ?thesis using assms(3) by simp
  next
    case (Some cr)
    with r have "column_checks L col (df_col df col) cr ?st0 = Inr res" by simp
    then show ?thesis
      by (rule column_checks_result) (use assms(3,4) in auto)
  qed
  have st': "st' = \<lparr>vs_columns = AList.update col
                         \<lparr>invalid_count = mask_sum (fst res),
                           invalid_pct = rate (mask_sum (fst res)) (df_len df),
                           inferred_type = lookup_type inferred col\<rparr> (vs_columns st),
                       vs_issues = snd res,
                       vs_invalid_total = vs_invalid_total st + mask_sum (fst res)\<rparr>"
    using assms(1) r unfolding validity_step_def Let_def by simp
  have le: "mask_sum (fst res) \<le> df_len df"
    using q mask_sum_le [of "fst res"] by linarith
  have "vs_invalid_total st + mask_sum (fst res) \<le> df_len df * Suc k"
    using assms(2) le by (simp add: validity_ok_def)
  then show ?thesis
    using q assms(2) rate_range [OF le]
    by (auto simp: st' validity_ok_def dest!: alist_update_set)
qed

lemma validity_loop_result:
  assumes "validity_loop L df rules_opt inferred cols st = Inr st'"
    and "validity_ok (df_len df) k st"
    and "\<forall>i \<in> set (vs_issues st). P i"
    and "\<And>kind c j ex. kind \<in> set validity_kinds \<Longrightarrow> 0 < j \<Longrightarrow>
           P \<lparr>itype = kind, icolumns = [c], icount = int j, iexamples = ex\<rparr>"
  shows "validity_ok (df_len df) (k + length cols) st' \<and> (\<forall>i \<in> set (vs_issues st'). P i)"
  using assms(1,2,3)
proof (induction cols arbitrary: st k)
  case Nil
  then show ?case by simp
next
  case (Cons c cols)
  from Cons.prems(1) obtain st1 where s1: "validity_step L df rules_opt inferred c st = Inr st1"
    and l: "validity_loop L df rules_opt inferred cols st1 = Inr st'"
    by (auto split: sum.splits)
  from validity_step_result [OF s1 Cons.prems(2,3) assms(4)]
  have "validity_ok (df_len df) (Suc k) st1" "\<forall>i \<in> set (vs_issues st1). P i" by auto
  from Cons.IH [OF l this] show ?case by simp
qed

lemma validity_result:
  assumes "compute_validity L df rules_opt inferred_types = Inr (vm, iss)"
    and "\<And>kind c j ex. kind \<in> set validity_kinds \<Longrightarrow> 0 < j \<Longrightarrow>
           P \<lparr>itype = kind, icolumns = [c], icount = int j, iexamples = ex\<rparr>"
  shows "0 \<le> invalid_pct (vm_global vm) \<and> invalid_pct (vm_global vm) \<le> 1
       \<and> (\<forall>p \<in> set (vm_columns vm). 0 \<le> invalid_pct (snd p) \<and> invalid_pct (snd p) \<le> 1)
       \<and> (\<forall>i \<in> set iss. P i)"
proof -
  let ?inf = "if truthy inferred_types then the inferred_types else infer_types L df"
  let ?st0 = "\<lparr>vs_columns = [], vs_issues = [], vs_invalid_total = 0\<rparr>"
  from assms(1) obtain st where l: "validity_loop L df rules_opt ?inf (df_columns df) ?st0 = Inr st"
    and vm: "vm = \<lparr>vm_global = \<lparr>invalid_count = vs_invalid_total st,
                      invalid_pct = rate (vs_invalid_total st) (df_len df * length (df_columns df))\<rparr>,
                   vm_columns = vs_columns st\<rparr>"
    and iss: "iss = vs_issues st"
    unfolding compute_validity_def Let_def by (auto split: sum.splits)
  have ok0: "validity_ok (df_len df) 0 ?st0" by (simp add: validity_ok_def)
  have i0: "\<forall>i \<in> set (vs_issues ?st0). P i" by simp
  from validity_loop_result [OF l ok0 i0 assms(2)]
  have ok: "validity_ok (df_len df) (length (df_columns df)) st"
    and isu: "\<forall>i \<in> set (vs_issues st). P i"
    by auto
  from ok have "vs_invalid_total st \<le> df_len df * length (df_columns df)"
    by (simp add: validity_ok_def)
  from rate_range [OF this] ok isu show ?thesis
    by (simp add: vm iss validity_ok_def)
qed

subsection \<open>Consistency\<close>

lemma consistency_step_fails:
  "\<exists>msg. consistency_step L df rule st =
     Inr (st\<lparr>cs_issues := cs_issues st @
                [\<lparr>itype = ''row_rule_error'', icolumns = [], icount = 0,
                  iexamples = [Of_text msg]\<rparr>],
              cs_rule_metrics := AList.update (rr_name rule)
                \<lparr>rm_invalid_count = 0, rm_invalid_pct = 0, rm_expr = rr_expr rule\<rparr>
                (cs_rule_metrics st)\<rparr>)"
proof -
  from evaluate_row_rule_fails [of L "rr_expr rule" df]
  obtain msg where "evaluate_row_rule L (rr_expr rule) df = Inl (RulesError msg)" by blast
  then show ?thesis by (auto simp: consistency_step_def)
qed

lemma consistency_loop_result:
  "consistency_ok st \<Longrightarrow>
   \<exists>st'. consistency_loop L df rs st = Inr st' \<and> consistency_ok st'
     \<and> length (cs_issues st') = length (cs_issues st) + length rs"
proof (induction rs arbitrary: st)
  case Nil
  then show ?case by simp
next
  case (Cons r rs)
  from consistency_step_fails [of L df r st] obtain msg where
    s: "consistency_step L df r st =
     Inr (st\<lparr>cs_issues := cs_issues st @
                [\<lparr>itype = ''row_rule_error'', icolumns = [], icount = 0,
                  iexamples = [Of_text msg]\<rparr>],
              cs_rule_metrics := AList.update (rr_name r)
                \<lparr>rm_invalid_count = 0, rm_invalid_pct = 0, rm_expr = rr_expr r\<rparr>
                (cs_rule_metrics st)\<rparr>)" (is "_ = Inr ?st1")
    by blast
  have ok1: "consistency_ok ?st1"
    using Cons.prems by (auto simp: consistency_ok_def dest!: alist_update_set)
  from Cons.IH [OF ok1] show ?case by (auto simp: s)
qed

lemma consistency_result:
  "\<exists>cm iss. compute_consistency L df rules_opt = Inr (cm, iss)
     \<and> cons_invalid_count cm = 0 \<and> cons_invalid_pct cm = 0
     \<and> (\<forall>p \<in> set (cons_rules cm). rm_invalid_count (snd p) = 0 \<and> rm_invalid_pct (snd p) = 0)
     \<and> (\<forall>i \<in> set iss. itype i = ''row_rule_error'' \<and> icount i = 0)
     \<and> length iss = (case rules_opt of None \<Rightarrow> 0 | Some rs \<Rightarrow> length (r_row_rules rs))"
proof (cases rules_opt)
  case None
  then show ?thesis by (simp add: compute_consistency_def)
next
  case (Some rs)
  show ?thesis
  proof (cases "r_row_rules rs = []")
    case True
    with Some show ?thesis by (simp add: compute_consistency_def)
  next
    case False
    let ?st0 = "\<lparr>cs_issues = [], cs_total_invalid = 0, cs_rule_metrics = []\<rparr>"
    have "consistency_ok ?st0" by (simp add: consistency_ok_def)
    from consistency_loop_result [OF this, of L df "r_row_rules rs"]
    obtain st' where "consistency_loop L df (r_row_rules rs) ?st0 = Inr st'" "consistency_ok st'"
      "length (cs_issues st') = length (r_row_rules rs)"
      by auto
    with Some False show ?thesis
      by (simp add: compute_consistency_def consistency_ok_def rate_int_def)
  qed
qed

section \<open>Percentages of the five checks\<close>

text \<open>
  C2. For every well-formed frame, every rule set and every choice of key groups, each
  percentage that a check reports lies in \<open>[0, 1]\<close>: the global and per-column
  \<^verbatim>\<open>missing_pct\<close>, the global and per-column \<^verbatim>\<open>outlier_pct\<close>, \<^verbatim>\<open>duplicate_rows_pct\<close> and the
  \<^verbatim>\<open>pct\<close> of every key group whenever the uniqueness check returns, the global and
  per-column \<^verbatim>\<open>invalid_pct\<close> of the validity check whenever that check returns, and the
  global and per-rule \<^verbatim>\<open>invalid_pct\<close> of the consistency check, which always returns; in
  particular the consistency check's global \<^verbatim>\<open>invalid_pct\<close> is at most 1.
\<close>

theorem percentages_in_unit_interval:
  assumes "wf_df df"
  shows "(0 \<le> missing_pct (cm_global (fst (compute_completeness df)))
          \<and> missing_pct (cm_global (fst (compute_completeness df))) \<le> 1
          \<and> (\<forall>p \<in> set (cm_columns (fst (compute_completeness df))).
                0 \<le> missing_pct (snd p) \<and> missing_pct (snd p) \<le> 1))
       \<and> (\<forall>um iss. compute_uniqueness_raising df id_cols unique_keys = Inr (um, iss) \<longrightarrow>
             0 \<le> duplicate_rows_pct um \<and> duplicate_rows_pct um \<le> 1
             \<and> (\<forall>p \<in> set (duplicates_on_key um). 0 \<le> km_pct (snd p) \<and> km_pct (snd p) \<le> 1))
       \<and> (0 \<le> outlier_pct (om_global (fst (compute_outliers L df)))
          \<and> outlier_pct (om_global (fst (compute_outliers L df))) \<le> 1
          \<and> (\<forall>p \<in> set (om_columns (fst (compute_outliers L df))).
                0 \<le> outlier_pct (snd p) \<and> outlier_pct (snd p) \<le> 1))
       \<and> (\<forall>vm iss. compute_validity L df rules_opt inferred_types = Inr (vm, iss) \<longrightarrow>
             0 \<le> invalid_pct (vm_global vm) \<and> invalid_pct (vm_global vm) \<le> 1
             \<and> (\<forall>p \<in> set (vm_columns vm). 0 \<le> invalid_pct (snd p) \<and> invalid_pct (snd p) \<le> 1))
       \<and> (\<exists>cm iss. compute_consistency L df rules_opt = Inr (cm, iss)
             \<and> 0 \<le> cons_invalid_pct cm \<and> cons_invalid_pct cm \<le> 1
             \<and> (\<forall>p \<in> set (cons_rules cm).
                   0 \<le> rm_invalid_pct (snd p) \<and> rm_invalid_pct (snd p) \<le> 1))"
proof (intro conjI allI impI)
  note c = completeness_rates [OF assms]
  show "0 \<le> missing_pct (cm_global (fst (compute_completeness df)))"
    "missing_pct (cm_global (fst (compute_completeness df))) \<le> 1"
    "\<forall>p \<in> set (cm_columns (fst (compute_completeness df))).
        0 \<le> missing_pct (snd p) \<and> missing_pct (snd p) \<le> 1"
    using c by blast+
  note out = outliers_rates [of L df]
  show "0 \<le> outlier_pct (om_global (fst (compute_outliers L df)))"
    "outlier_pct (om_global (fst (compute_outliers L df))) \<le> 1"
    "\<forall>p \<in> set (om_columns (fst (compute_outliers L df))).
        0 \<le> outlier_pct (snd p) \<and> outlier_pct (snd p) \<le> 1"
    using out by blast+
next
  fix um iss
  assume "compute_uniqueness_raising df id_cols unique_keys = Inr (um, iss)"
  then have um: "um = fst (compute_uniqueness df id_cols unique_keys)"
    by (auto simp: compute_uniqueness_raising_def split: if_splits)
  note u = uniqueness_rates [OF assms, of id_cols unique_keys]
  show "0 \<le> duplicate_rows_pct um" "duplicate_rows_pct um \<le> 1"
    "\<forall>p \<in> set (duplicates_on_key um). 0 \<le> km_pct (snd p) \<and> km_pct (snd p) \<le> 1"
    unfolding um using u by blast+
next
  fix vm iss
  assume v: "compute_validity L df rules_opt inferred_types = Inr (vm, iss)"
  note r = validity_result [OF v, of "\<lambda>i. True"]
  show "0 \<le> invalid_pct (vm_global vm)" "invalid_pct (vm_global vm) \<le> 1"
    "\<forall>p \<in> set (vm_columns vm). 0 \<le> invalid_pct (snd p) \<and> invalid_pct (snd p) \<le> 1"
    using r by blast+
next
  from consistency_result [of L df rules_opt]
  obtain cm iss where "compute_consistency L df rules_opt = Inr (cm, iss)"
    "cons_invalid_pct cm = 0"
    "\<forall>p \<in> set (cons_rules cm). rm_invalid_count (snd p) = 0 \<and> rm_invalid_pct (snd p) = 0"
    by blast
  then show "\<exists>cm iss. compute_consistency L df rules_opt = Inr (cm, iss)
             \<and> 0 \<le> cons_invalid_pct cm \<and> cons_invalid_pct cm \<le> 1
             \<and> (\<forall>p \<in> set (cons_rules cm).
                   0 \<le> rm_invalid_pct (snd p) \<and> rm_invalid_pct (snd p) \<le> 1)"
    by (intro exI [of _ cm] exI [of _ iss]) simp
qed

theorem percentages_in_unit_interval_witness:
  "wf_df [(''a'', [Num 1, Null])]
   \<and> compute_validity sample_lib [(''a'', [Num 1, Null])]
       (Some \<lparr>r_columns = [(''a'', \<lparr>cr_type = None, cr_required = True, cr_min = None,
                 cr_max = None, cr_regex = None, cr_allowed = None, cr_not_future = False\<rparr>)],
              r_unique_keys = [], r_row_rules = []\<rparr>) None
     = Inr (\<lparr>vm_global = \<lparr>invalid_count = 1, invalid_pct = 1 / 2\<rparr>,
             vm_columns = [(''a'', \<lparr>invalid_count = 1, invalid_pct = 1 / 2,
                                    inferred_type = ''string''\<rparr>)]\<rparr>,
            [\<lparr>itype = ''required_missing'', icolumns = [''a''], icount = 1,
              iexamples = [Of_cell Null]\<rparr>])
   \<and> compute_uniqueness_raising [(''a'', [Num 1, Null])] None None
     = Inr (\<lparr>duplicate_rows_count = 0, duplicate_rows_pct = 0, duplicates_on_key = []\<rparr>, [])
   \<and> missing_pct (cm_global (fst (compute_completeness [(''a'', [Num 1, Null])]))) \<le> 1
   \<and> (1 / 2 :: real) \<le> 1 \<and> (0 :: real) \<le> 1"
proof -
  let ?df = "[(''a'', [Num 1, Null])]"
  let ?rs = "Some \<lparr>r_columns = [(''a'', \<lparr>cr_type = None, cr_required = True, cr_min = None,
                 cr_max = None, cr_regex = None, cr_allowed = None, cr_not_future = False\<rparr>)],
              r_unique_keys = [], r_row_rules = []\<rparr>"
  let ?vm = "\<lparr>vm_global = \<lparr>invalid_count = 1, invalid_pct = 1 / 2\<rparr>,
             vm_columns = [(''a'', \<lparr>invalid_count = 1, invalid_pct = 1 / 2,
                                    inferred_type = ''string''\<rparr>)]\<rparr>"
  have wf: "wf_df ?df" by (simp add: wf_df_def df_len_def)
  have v: "compute_validity sample_lib ?df ?rs None
     = Inr (?vm, [\<lparr>itype = ''required_missing'', icolumns = [''a''], icount = 1,
              iexamples = [Of_cell Null]\<rparr>])"
    by (simp add: compute_validity_def validity_step_def column_checks_def add_check_def
        mask_or_def truthy_def sample_lib_def df_columns_def df_col_def df_len_def
        lookup_type_def mask_sum_def rate_def Let_def select_def rows_to_examples_def)
  have u: "compute_uniqueness_raising ?df None None
     = Inr (\<lparr>duplicate_rows_count = 0, duplicate_rows_pct = 0, duplicates_on_key = []\<rparr>, [])"
    by (simp add: compute_uniqueness_raising_def empty_key_group_def compute_uniqueness_def
        df_rows_def df_len_def duplicated_def mask_sum_def rate_def Let_def upt_rec)
  from percentages_in_unit_interval [OF wf, where L = sample_lib and rules_opt = "?rs"
      and inferred_types = None and id_cols = None and unique_keys = None]
  have "missing_pct (cm_global (fst (compute_completeness ?df))) \<le> 1"
    and "\<forall>vm iss. compute_validity sample_lib ?df ?rs None = Inr (vm, iss) \<longrightarrow>
             0 \<le> invalid_pct (vm_global vm) \<and> invalid_pct (vm_global vm) \<le> 1
             \<and> (\<forall>p \<in> set (vm_columns vm). 0 \<le> invalid_pct (snd p) \<and> invalid_pct (snd p) \<le> 1)"
    and "\<forall>um iss. compute_uniqueness_raising ?df None None = Inr (um, iss) \<longrightarrow>
             0 \<le> duplicate_rows_pct um \<and> duplicate_rows_pct um \<le> 1
             \<and> (\<forall>p \<in> set (duplicates_on_key um). 0 \<le> km_pct (snd p) \<and> km_pct (snd p) \<le> 1)"
    by blast+
  with v u have "missing_pct (cm_global (fst (compute_completeness ?df))) \<le> 1"
    and "invalid_pct (vm_global ?vm) \<le> 1"
    and "duplicate_rows_pct \<lparr>duplicate_rows_count = 0, duplicate_rows_pct = 0,
           duplicates_on_key = []\<rparr> \<le> 1"
    by blast+
  then show ?thesis using wf v u by simp
qed

section \<open>Counts of the emitted issues\<close>

text \<open>
  C3, as the code has it. Whenever \<^verbatim>\<open>run_profile\<close> returns, every issue of its result
  other than a \<^verbatim>\<open>row_rule_error\<close> has a count above zero, and every \<^verbatim>\<open>row_rule_error\<close> issue
  has count 0; the count of a \<^verbatim>\<open>missing_columns\<close> issue is the number of the columns it
  names, of which there is at least one.
\<close>

theorem issue_counts:
  assumes "run_profile L df rules_opt id_cols = Inr res"
  shows "\<forall>i \<in> set (pr_issues res).
           (itype i = ''row_rule_error'' \<longrightarrow> icount i = 0)
         \<and> (itype i \<noteq> ''row_rule_error'' \<longrightarrow> 0 < icount i)
         \<and> (itype i = ''missing_columns'' \<longrightarrow>
              icount i = int (length (icolumns i)) \<and> icolumns i \<noteq> [])"
proof -
  let ?P = "\<lambda>i. (itype i = ''row_rule_error'' \<longrightarrow> icount i = 0)
         \<and> (itype i \<noteq> ''row_rule_error'' \<longrightarrow> 0 < icount i)
         \<and> (itype i = ''missing_columns'' \<longrightarrow>
              icount i = int (length (icolumns i)) \<and> icolumns i \<noteq> [])"
  let ?missing = "case rules_opt of None \<Rightarrow> []
                  | Some rs \<Rightarrow> validate_column_rules (df_columns df) rs"
  let ?uk = "case rules_opt of None \<Rightarrow> None | Some rs \<Rightarrow> Some (r_unique_keys rs)"
  from assms obtain uniqueness validity consistency where
    u: "compute_uniqueness_raising df id_cols ?uk = Inr uniqueness"
    and v: "compute_validity L df rules_opt (Some (infer_types L df)) = Inr validity"
    and c: "compute_consistency L df rules_opt = Inr consistency"
    and iss: "pr_issues res = sort_key (\<lambda>item. - icount item)
        (snd (compute_completeness df) @ snd uniqueness @ snd validity
         @ snd (compute_outliers L df) @ snd consistency @ map missing_rule_issue ?missing)"
    unfolding run_profile_def Let_def by (auto split: sum.splits)
  from u have ueq: "uniqueness = compute_uniqueness df id_cols ?uk"
    by (auto simp: compute_uniqueness_raising_def split: if_splits)
  have p1: "\<forall>i \<in> set (snd (compute_completeness df)). ?P i"
    by (rule completeness_issues) simp
  have p2: "\<forall>i \<in> set (snd uniqueness). ?P i"
    unfolding ueq by (rule uniqueness_issues) simp_all
  have p3: "\<forall>i \<in> set (snd validity). ?P i"
    using validity_result [of L df rules_opt "Some (infer_types L df)" "fst validity"
        "snd validity" ?P] v
    by (auto simp: validity_kinds_def)
  have p4: "\<forall>i \<in> set (snd (compute_outliers L df)). ?P i"
    by (rule outliers_issues) simp
  have p5: "\<forall>i \<in> set (snd consistency). ?P i"
    using consistency_result [of L df rules_opt] c by auto
  have p6: "\<forall>i \<in> set (map missing_rule_issue ?missing). ?P i"
    by (auto simp: missing_rule_issue_def)
  show ?thesis
    unfolding iss using p1 p2 p3 p4 p5 p6 by (simp add: ball_Un)
qed

theorem issue_counts_witness:
  "\<exists>res. run_profile sample_lib [(''a'', [Str ''x'', Str ''x''])]
       (Some \<lparr>r_columns = [(''b'', \<lparr>cr_type = None, cr_required = True, cr_min = None,
                 cr_max = None, cr_regex = None, cr_allowed = None, cr_not_future = False\<rparr>)],
              r_unique_keys = [], r_row_rules = [\<lparr>rr_name = ''r'', rr_expr = ''@''\<rparr>]\<rparr>)
       (Some [''zz'']) = Inr res
     \<and> map (\<lambda>i. (itype i, icount i)) (pr_issues res) =
         [(''duplicate_rows'', 1), (''missing_columns'', 1), (''missing_rule_column'', 1),
          (''row_rule_error'', 0)]"
proof -
  let ?run = "run_profile sample_lib [(''a'', [Str ''x'', Str ''x''])]
       (Some \<lparr>r_columns = [(''b'', \<lparr>cr_type = None, cr_required = True, cr_min = None,
                 cr_max = None, cr_regex = None, cr_allowed = None, cr_not_future = False\<rparr>)],
              r_unique_keys = [], r_row_rules = [\<lparr>rr_name = ''r'', rr_expr = ''@''\<rparr>]\<rparr>)
       (Some [''zz''])"
  have "\<exists>res. ?run = Inr res
     \<and> map (\<lambda>i. (itype i, icount i)) (pr_issues res) =
         [(''duplicate_rows'', 1), (''missing_columns'', 1), (''missing_rule_column'', 1),
          (''row_rule_error'', 0)]"
    by (simp add: run_profile_def compute_validity_def validity_step_def column_checks_def
      truthy_def sample_lib_def df_columns_def df_col_def df_len_def lookup_type_def
      validate_column_rules_def mask_sum_def rate_def Let_def
      compute_completeness_def completeness_step_def select_def rows_to_examples_def
      compute_uniqueness_raising_def empty_key_group_def
      compute_uniqueness_def handle_key_def missing_columns_def df_rows_def duplicated_def
      index_where_def upt_rec
      compute_outliers_def outliers_step_def dtype_of_def is_numeric_dtype_def
      compute_consistency_def consistency_step_def evaluate_row_rule_def parse_expression_def
      tokenize_def isspace_def token_regex_match_def first_match_def number_match_def
      string_match_def quoted_match_def op_match_def char_match_def ident_match_def
      is_digit_def is_ident_start_def rate_int_def missing_rule_issue_def
      profile_duplicate_key_pct_def compute_scores_def default_weights_def bounded_def)
  then obtain res where rp: "?run = Inr res"
    and m: "map (\<lambda>i. (itype i, icount i)) (pr_issues res) =
         [(''duplicate_rows'', 1), (''missing_columns'', 1), (''missing_rule_column'', 1),
          (''row_rule_error'', 0)]"
    by (elim exE conjE)
  have "\<forall>i \<in> set (pr_issues res).
           (itype i = ''row_rule_error'' \<longrightarrow> icount i = 0)
         \<and> (itype i \<noteq> ''row_rule_error'' \<longrightarrow> 0 < icount i)
         \<and> (itype i = ''missing_columns'' \<longrightarrow>
              icount i = int (length (icolumns i)) \<and> icolumns i \<noteq> [])"
    by (rule issue_counts [OF rp])
  then show ?thesis using rp m by - (rule exI [of _ res], simp)
qed

theorem row_rule_error_count_counterexample:
  "compute_consistency sample_lib [(''a'', [Num 1])]
     (Some \<lparr>r_columns = [], r_unique_keys = [],
            r_row_rules = [\<lparr>rr_name = ''r'', rr_expr = ''@''\<rparr>]\<rparr>)
   = Inr (\<lparr>cons_invalid_count = 0, cons_invalid_pct = 0,
           cons_rules = [(''r'', \<lparr>rm_invalid_count = 0, rm_invalid_pct = 0, rm_expr = ''@''\<rparr>)]\<rparr>,
          [\<lparr>itype = ''row_rule_error'', icolumns = [], icount = 0,
            iexamples = [Of_text ''Invalid token near: @'']\<rparr>])"
  by (simp add: compute_consistency_def consistency_step_def evaluate_row_rule_def
      parse_expression_def tokenize_def isspace_def token_regex_match_def first_match_def
      number_match_def string_match_def quoted_match_def op_match_def char_match_def
      ident_match_def is_digit_def is_ident_start_def rate_int_def)

section \<open>An exception that leaves \<^verbatim>\<open>run_profile\<close>\<close>

text \<open>
  C1. With the column rule \<^verbatim>\<open>regex: "("\<close> on a column of the frame, \<^verbatim>\<open>run_profile\<close> does not
  return a result: \<^verbatim>\<open>re.error\<close>, raised when \<^verbatim>\<open>str.match\<close> compiles the pattern in the validity
  check, is caught nowhere and leaves \<^verbatim>\<open>run_profile\<close>. Nor does it return with a unique-key
  group that names no column on a frame that has rows: the \<^verbatim>\<open>ValueError\<close> of
  \<^verbatim>\<open>df.duplicated(subset=[])\<close> leaves it in the same way.
\<close>

theorem run_profile_invalid_regex_raises:
  assumes "re_compile L ''('' = None"
  shows "run_profile L [(''a'', [Str ''x''])]
     (Some \<lparr>r_columns = [(''a'', \<lparr>cr_type = None, cr_required = False, cr_min = None,
               cr_max = None, cr_regex = Some ''('', cr_allowed = None, cr_not_future = False\<rparr>)],
            r_unique_keys = [], r_row_rules = []\<rparr>) None
   = Inl PatternError
   \<and> run_profile L [(''a'', [Str ''x''])]
       (Some \<lparr>r_columns = [], r_unique_keys = [[]], r_row_rules = []\<rparr>) None
     = Inl ValueError"
  using assms
  by (simp add: run_profile_def compute_uniqueness_raising_def empty_key_group_def
      compute_validity_def validity_step_def column_checks_def
      truthy_def df_columns_def df_col_def df_len_def Let_def)

theorem run_profile_invalid_regex_raises_witness:
  "re_compile sample_lib ''('' = None
   \<and> run_profile sample_lib [(''a'', [Str ''x''])]
     (Some \<lparr>r_columns = [(''a'', \<lparr>cr_type = None, cr_required = False, cr_min = None,
               cr_max = None, cr_regex = Some ''('', cr_allowed = None, cr_not_future = False\<rparr>)],
            r_unique_keys = [], r_row_rules = []\<rparr>) None
   = Inl PatternError"
proof -
  have h: "re_compile sample_lib ''('' = None" by (simp add: sample_lib_def)
  from run_profile_invalid_regex_raises [OF h] h show ?thesis by simp
qed


end
